theory Spec2Isabelle
  imports
    Complex_Main
    "HOL-Library.Multiset"
    "HOL-Library.AList"
    "HOL-Library.Sublist"
    "HOL-Library.Char_ord"
    "HOL-Library.List_Lexorder"
begin

section \<open>Data model (models.py)\<close>

text \<open>
  A \<^verbatim>\<open>datetime\<close> is represented by its POSIX timestamp, the number
  \<^verbatim>\<open>datetime.timestamp()\<close> returns; the order of datetimes is the order of these
  numbers. Python floats are idealised as real numbers: the claims verified below concern
  comparisons and orderings of scores and timestamps only. \<^verbatim>\<open>datetime.min\<close> is
  0001-01-01T00:00:00, that is 62135596800 seconds before the epoch.
\<close>

type_synonym datetime = real

definition datetime_min :: datetime where
  "datetime_min = - 62135596800"

datatype source = CLI | IDE

record indexed_message =
  uuid :: string
  session_id :: string
  workspace :: string
  timestamp :: datetime
  role :: string
  searchable_text :: string
  message_index :: int
  source :: source

text \<open>The fields of \<^verbatim>\<open>SessionInfo\<close> carry the prefix \<open>si_\<close>, since a field name
  is a constant of the theory and \<^verbatim>\<open>IndexedMessage\<close> has fields of the same names.\<close>

record session_info =
  si_session_id :: string
  si_workspace :: string
  si_message_count :: int
  si_created :: "datetime option"
  si_modified :: "datetime option"
  si_source :: source

text \<open>\<^verbatim>\<open>self.modified or self.created or datetime.min\<close>: a datetime object is always
  truthy, so \<^verbatim>\<open>or\<close> falls through on \<^verbatim>\<open>None\<close> only.\<close>

definition timestamp_fallback :: "session_info \<Rightarrow> datetime" where
  "timestamp_fallback s =
     (case si_modified s of
        Some m \<Rightarrow> m
      | None \<Rightarrow> (case si_created s of Some c \<Rightarrow> c | None \<Rightarrow> datetime_min))"

text \<open>The response models. Their fields carry a prefix (\<open>mm_\<close>, \<open>cm_\<close>, \<open>res_\<close>,
  \<open>sr_\<close>) for the same reason.\<close>

record matched_message =
  mm_role :: string
  mm_content :: string
  mm_timestamp :: datetime
  mm_workspace :: string
  mm_session_id :: string
  mm_uuid :: string
  mm_source :: source

record context_message =
  cm_role :: string
  cm_content :: string
  cm_timestamp :: datetime
  cm_is_match :: bool

record search_result =
  res_matched_message :: matched_message
  res_score :: real
  res_context :: "context_message list"

record search_response =
  sr_results :: "search_result list"
  sr_query :: string
  sr_total_matches :: int
  sr_offset :: int
  sr_has_more :: bool
  sr_excluded_sessions :: int
  sr_hint :: "string option"

section \<open>Python built-ins used by the code\<close>

text \<open>\<^verbatim>\<open>sorted(xs, key=f, reverse=True)\<close> and \<^verbatim>\<open>xs.sort(key=f, reverse=True)\<close>:
  Python's sort is stable also when reversed, so elements with equal keys keep their
  original order. \<^const>\<open>sort_key\<close> is the stable ascending sort
  \<^verbatim>\<open>sorted(xs, key=f)\<close>.\<close>

definition sorted_reverse :: "('a \<Rightarrow> 'k::linorder) \<Rightarrow> 'a list \<Rightarrow> 'a list" where
  "sorted_reverse f xs = rev (sort_key f (rev xs))"

text \<open>\<^verbatim>\<open>xs[i:j]\<close> for integers \<open>i\<close> and \<open>j\<close>: a negative index counts from
  the end, both are clamped to the list, and the slice is empty when the start is not
  before the end.\<close>

definition slice_index :: "nat \<Rightarrow> int \<Rightarrow> nat" where
  "slice_index n i = (if i < 0 then nat (max 0 (int n + i)) else min n (nat i))"

definition py_slice :: "'a list \<Rightarrow> int \<Rightarrow> int \<Rightarrow> 'a list" where
  "py_slice xs i j =
     (let lo = slice_index (length xs) i; hi = slice_index (length xs) j
      in take (hi - lo) (drop lo xs))"

text \<open>\<^verbatim>\<open>str(n)\<close> for an integer, as an f-string formats it.\<close>

definition digit_char :: "nat \<Rightarrow> char" where
  "digit_char d = ''0123456789'' ! d"

function str_nat :: "nat \<Rightarrow> string" where
  "str_nat n = (if n < 10 then [digit_char n] else str_nat (n div 10) @ [digit_char (n mod 10)])"
  by pat_completeness auto
termination
  by (relation "measure id") auto

declare str_nat.simps [simp del]

definition str_int :: "int \<Rightarrow> string" where
  "str_int i = (if i < 0 then CHR ''-'' # str_nat (nat (- i)) else str_nat (nat i))"

section \<open>Configuration constants (config.py)\<close>

definition BYTES_PER_MESSAGE :: int where
  "BYTES_PER_MESSAGE = 2600"

record search_config =
  default_threshold :: real
  default_max_results :: int
  default_context_window :: int

text \<open>The defaults of the dataclass \<^verbatim>\<open>SearchConfig\<close>.\<close>

definition SearchConfig :: search_config where
  "SearchConfig = \<lparr> default_threshold = 2 / 10, default_max_results = 10,
     default_context_window = 3 \<rparr>"

section \<open>Memory budgeting (indexer.py, select\_sessions\_within\_limit)\<close>

definition estimated_bytes :: "session_info \<Rightarrow> int" where
  "estimated_bytes session =
     (let msg_count = (if si_message_count session > 0 then si_message_count session else 10)
      in msg_count * BYTES_PER_MESSAGE)"

text \<open>The \<^verbatim>\<open>for session in sorted_sessions\<close> loop, with its three variables
  \<^verbatim>\<open>selected\<close>, \<^verbatim>\<open>excluded\<close> and \<^verbatim>\<open>current_bytes\<close>.\<close>

fun select_loop ::
  "int \<Rightarrow> session_info list \<Rightarrow> session_info list \<Rightarrow> session_info list \<Rightarrow> int
     \<Rightarrow> session_info list \<times> session_info list" where
  "select_loop memory_limit_bytes [] selected excluded current_bytes = (selected, excluded)"
| "select_loop memory_limit_bytes (session # rest) selected excluded current_bytes =
     (let estimated = estimated_bytes session
      in if current_bytes + estimated \<le> memory_limit_bytes
         then select_loop memory_limit_bytes rest (selected @ [session]) excluded
                (current_bytes + estimated)
         else select_loop memory_limit_bytes rest selected (excluded @ [session])
                current_bytes)"

definition select_sessions_within_limit ::
  "session_info list \<Rightarrow> int \<Rightarrow> session_info list \<times> session_info list" where
  "select_sessions_within_limit sessions memory_limit_bytes =
     (if memory_limit_bytes \<le> 0 then (sessions, [])
      else select_loop memory_limit_bytes (sorted_reverse timestamp_fallback sessions) [] [] 0)"

text \<open>The greedy rule in the words of the specification: scanning newest first with a
  running total, a session is admitted exactly when adding its estimate keeps the total
  within the limit, and the scan goes on after an excluded session.\<close>

fun greedy_admitted :: "int \<Rightarrow> int \<Rightarrow> session_info list \<Rightarrow> session_info list" where
  "greedy_admitted limit running [] = []"
| "greedy_admitted limit running (s # ss) =
     (if running + estimated_bytes s \<le> limit
      then s # greedy_admitted limit (running + estimated_bytes s) ss
      else greedy_admitted limit running ss)"

fun greedy_rejected :: "int \<Rightarrow> int \<Rightarrow> session_info list \<Rightarrow> session_info list" where
  "greedy_rejected limit running [] = []"
| "greedy_rejected limit running (s # ss) =
     (if running + estimated_bytes s \<le> limit
      then greedy_rejected limit (running + estimated_bytes s) ss
      else s # greedy_rejected limit running ss)"

section \<open>Pagination hint (query.py, \_generate\_hint)\<close>

definition generate_hint :: "int \<Rightarrow> int \<Rightarrow> int \<Rightarrow> int \<Rightarrow> bool \<Rightarrow> string" where
  "generate_hint total_n offset count_n max_results has_more =
     (if total_n = 0 then ''No matches found. Try different search terms.''
      else
        let start = offset + 1; end = offset + count_n
        in if has_more
           then ''Showing '' @ str_int start @ ''-'' @ str_int end @ '' of '' @ str_int total_n
                @ ''. Use offset: '' @ str_int (offset + max_results) @ '' for more.''
           else if start = 1
           then ''Showing all '' @ str_int total_n @ '' matches.''
           else ''Showing '' @ str_int start @ ''-'' @ str_int end @ '' of '' @ str_int total_n
                @ '' (final page).'')"

section \<open>External collaborators\<close>

text \<open>
  What the indexing and query engine consumes from outside: the two source readers
  (cli\_loader.py and ide\_loader.py read a database and chat files), the resolved memory
  limit (\<^verbatim>\<open>get_memory_limit()\<close> reads the process environment, the configuration and the
  host's physical memory), the embedding model, and library functions whose results are
  taken as given: \<^verbatim>\<open>hashlib.md5(..).hexdigest()\<close>, the formatting of a float in an
  f-string, \<^verbatim>\<open>round(score, 4)\<close> and \<^verbatim>\<open>datetime.fromisoformat\<close> (\<open>None\<close> where it
  raises \<^verbatim>\<open>ValueError\<close>; otherwise the parsed wall-clock datetime and the UTC offset,
  if the string carried one). \<open>model_encode\<close> is \<^verbatim>\<open>model.encode\<close> on one text; on a
  batch it is applied to every text of the batch. \<open>cache_write_ok\<close> tells whether writing
  the cache file succeeds (\<^verbatim>\<open>_save_cache\<close> swallows \<^verbatim>\<open>OSError\<close>).
\<close>

record env =
  cli_enabled :: bool
  ide_enabled :: bool
  list_cli_sessions :: "session_info list"
  list_ide_sessions :: "session_info list"
  load_cli_session_messages :: "session_info \<Rightarrow> indexed_message list"
  load_ide_session_messages :: "session_info \<Rightarrow> indexed_message list"
  get_memory_limit :: int
  md5_hexdigest :: "string \<Rightarrow> string"
  float_str :: "real \<Rightarrow> string"
  model_encode :: "string \<Rightarrow> real list"
  round4 :: "real \<Rightarrow> real"
  fromisoformat :: "string \<Rightarrow> (datetime \<times> int option) option"
  config_search :: search_config
  cache_write_ok :: bool

section \<open>Unified loader (loader.py)\<close>

definition list_all_sessions :: "env \<Rightarrow> session_info list" where
  "list_all_sessions e =
     sorted_reverse timestamp_fallback
       ((if cli_enabled e then list_cli_sessions e else [])
        @ (if ide_enabled e then list_ide_sessions e else []))"

definition load_session_messages :: "env \<Rightarrow> session_info \<Rightarrow> indexed_message list" where
  "load_session_messages e session =
     (if si_source session = CLI then load_cli_session_messages e session
      else load_ide_session_messages e session)"

definition load_messages_for_sessions :: "env \<Rightarrow> session_info list \<Rightarrow> indexed_message list" where
  "load_messages_for_sessions e sessions = concat (map (load_session_messages e) sessions)"

section \<open>The conversation index (indexer.py)\<close>

text \<open>
  The state of a \<^verbatim>\<open>ConversationIndex\<close>, one field for each attribute (without the
  leading underscore). The embedding matrix is a list of rows, \<open>None\<close> before the first
  build. The two metadata arrays are \<^verbatim>\<open>None\<close> before the first build and are read only
  after a build has set them; they start as the empty arrays that
  \<^verbatim>\<open>_build_metadata_indices\<close> produces for an empty corpus.

  Three more fields record what the object does to its surroundings: \<open>cache_file\<close> is the
  content of the persisted embedding cache (\<open>None\<close> when the file is missing or
  unreadable), \<open>batch_encode_calls\<close> lists the batches \<^verbatim>\<open>build_index\<close> has passed to
  \<^verbatim>\<open>model.encode\<close>, oldest first, and \<open>builds\<close> counts the runs of \<^verbatim>\<open>build_index\<close>.
\<close>

record conversation_index =
  messages :: "indexed_message list"
  embeddings :: "real list list option"
  text_hashes :: "string list"
  sessions_fingerprint :: string
  excluded_session_count :: int
  timestamp_order :: "nat list"
  sorted_timestamps :: "real list"
  cache_file :: "(string \<rightharpoonup> real list) option"
  batch_encode_calls :: "string list list"
  builds :: nat

definition EMBEDDING_DIM :: nat where
  "EMBEDDING_DIM = 384"

text \<open>\<^verbatim>\<open>ConversationIndex.__init__\<close>, for a given content of the cache file.\<close>

definition init_index :: "(string \<rightharpoonup> real list) option \<Rightarrow> conversation_index" where
  "init_index file =
     \<lparr> messages = [], embeddings = None, text_hashes = [], sessions_fingerprint = [],
       excluded_session_count = 0, timestamp_order = [], sorted_timestamps = [],
       cache_file = file, batch_encode_calls = [], builds = 0 \<rparr>"

subsection \<open>Fingerprint\<close>

text \<open>\<^verbatim>\<open>"\n".join(parts)\<close>.\<close>

fun join_lines :: "string list \<Rightarrow> string" where
  "join_lines [] = []"
| "join_lines [p] = p"
| "join_lines (p # q # ps) = p @ CHR 0x0A # join_lines (q # ps)"

definition get_sessions_fingerprint :: "env \<Rightarrow> string" where
  "get_sessions_fingerprint e =
     (let sessions = list_all_sessions e;
          parts = map (\<lambda>s. si_session_id s @ '':'' @ float_str e (timestamp_fallback s)) sessions
      in md5_hexdigest e (join_lines (sort parts)))"

subsection \<open>Embedding cache\<close>

definition compute_text_hash :: "env \<Rightarrow> string \<Rightarrow> string" where
  "compute_text_hash e text = md5_hexdigest e text"

text \<open>\<^verbatim>\<open>_load_cache\<close>: any read failure gives the empty dictionary.\<close>

definition load_cache :: "conversation_index \<Rightarrow> (string \<rightharpoonup> real list)" where
  "load_cache st = (case cache_file st of None \<Rightarrow> Map.empty | Some cache \<Rightarrow> cache)"

text \<open>\<^verbatim>\<open>_save_cache\<close>: \<^verbatim>\<open>merged = {**existing, **new_embeddings}\<close> replaces the file; on
  \<^verbatim>\<open>OSError\<close> the file stays as it was. The new entries are an association list, the
  dictionary \<^verbatim>\<open>new_cache\<close> in insertion order.\<close>

definition save_cache ::
  "env \<Rightarrow> conversation_index \<Rightarrow> (string \<times> real list) list \<Rightarrow> conversation_index" where
  "save_cache e st new_embeddings =
     (if cache_write_ok e
      then (let existing = load_cache st; merged = existing ++ map_of new_embeddings
            in st\<lparr> cache_file := Some merged \<rparr>)
      else st)"

subsection \<open>Metadata indices\<close>

text \<open>\<^verbatim>\<open>np.argsort(a)\<close>: the indices that sort \<open>a\<close> ascending. The model takes the stable
  order (equal values keep their index order), which is what NumPy's default sort does on
  short arrays, where it is an insertion sort.\<close>

definition argsort :: "real list \<Rightarrow> nat list" where
  "argsort a = sort_key (\<lambda>i. a ! i) [0..<length a]"

text \<open>\<^verbatim>\<open>np.searchsorted(a, v, side="left")\<close> on an ascending array: the left insertion
  point of \<open>v\<close>, the number of leading elements below \<open>v\<close>.\<close>

definition searchsorted_left :: "real list \<Rightarrow> real \<Rightarrow> nat" where
  "searchsorted_left a v = length (takeWhile (\<lambda>t. t < v) a)"

definition build_metadata_indices :: "conversation_index \<Rightarrow> conversation_index" where
  "build_metadata_indices st =
     (if messages st = [] then st\<lparr> timestamp_order := [], sorted_timestamps := [] \<rparr>
      else
        let timestamps = map timestamp (messages st);
            order = argsort timestamps
        in st\<lparr> timestamp_order := order, sorted_timestamps := map (\<lambda>i. timestamps ! i) order \<rparr>)"

subsection \<open>Build\<close>

text \<open>The body of \<^verbatim>\<open>for i, idx in enumerate(batch_indices)\<close>: one row of the matrix and
  one entry of \<^verbatim>\<open>new_cache\<close> are written. \<^verbatim>\<open>model.encode\<close> returns one vector for
  each text of the batch, so the loop runs over the pairs of an index and its vector.\<close>

definition store_embedding ::
  "string list \<Rightarrow> real list list \<times> (string \<times> real list) list \<Rightarrow> nat \<times> real list
     \<Rightarrow> real list list \<times> (string \<times> real list) list" where
  "store_embedding hashes acc p =
     (case acc of (embs, new_cache) \<Rightarrow>
        (case p of (idx, v) \<Rightarrow> (embs[idx := v], AList.update (hashes ! idx) v new_cache)))"

text \<open>\<^verbatim>\<open>for batch_start in range(0, len(texts_to_embed), batch_size)\<close> with
  \<^verbatim>\<open>batch_size = 100\<close>. The accumulator holds the matrix, \<^verbatim>\<open>new_cache\<close> and the
  batches passed to the model so far.\<close>

function batch_loop ::
  "env \<Rightarrow> string list \<Rightarrow> string list \<Rightarrow> nat list \<Rightarrow> nat
     \<Rightarrow> real list list \<times> (string \<times> real list) list \<times> string list list
     \<Rightarrow> real list list \<times> (string \<times> real list) list \<times> string list list" where
  "batch_loop e hashes texts_to_embed indices_to_embed batch_start acc =
     (if batch_start < length texts_to_embed
      then
        (case acc of (embs, new_cache, calls) \<Rightarrow>
           let batch_end = min (batch_start + 100) (length texts_to_embed);
               batch_texts = take (batch_end - batch_start) (drop batch_start texts_to_embed);
               batch_indices = take (batch_end - batch_start) (drop batch_start indices_to_embed);
               batch_embeddings = map (model_encode e) batch_texts;
               stored = foldl (store_embedding hashes) (embs, new_cache)
                          (zip batch_indices batch_embeddings)
           in batch_loop e hashes texts_to_embed indices_to_embed (batch_start + 100)
                (fst stored, snd stored, calls @ [batch_texts]))
      else acc)"
  by pat_completeness auto
termination
  by (relation "measure (\<lambda>(e, hashes, texts, indices, batch_start, acc). length texts - batch_start)")
    auto

declare batch_loop.simps [simp del]

definition build_index :: "env \<Rightarrow> conversation_index \<Rightarrow> conversation_index" where
  "build_index e st0 =
     (let st = st0\<lparr> sessions_fingerprint := get_sessions_fingerprint e, builds := builds st0 + 1 \<rparr>;
          all_sessions = list_all_sessions e;
          memory_limit = get_memory_limit e;
          sel = select_sessions_within_limit all_sessions memory_limit;
          selected = fst sel;
          excluded = snd sel;
          st = st\<lparr> excluded_session_count := int (length excluded) \<rparr>;
          st = st\<lparr> messages := load_messages_for_sessions e selected \<rparr>
      in if messages st = []
         then st\<lparr> embeddings := Some [], text_hashes := [] \<rparr>
         else
           let cache = load_cache st;
               hashes = map (\<lambda>msg. compute_text_hash e (searchable_text msg)) (messages st);
               missing = filter (\<lambda>(i, msg). cache (hashes ! i) = None)
                           (List.enumerate 0 (messages st));
               texts_to_embed = map (\<lambda>(i, msg). searchable_text msg) missing;
               indices_to_embed = map fst missing;
               zeros = replicate (length (messages st)) (replicate EMBEDDING_DIM 0);
               loaded = map (\<lambda>(row, text_hash).
                               (case cache text_hash of Some v \<Rightarrow> v | None \<Rightarrow> row))
                          (zip zeros hashes);
               embedded = batch_loop e hashes texts_to_embed indices_to_embed 0 (loaded, [], []);
               new_cache = fst (snd embedded);
               st = st\<lparr> text_hashes := hashes, embeddings := Some (fst embedded),
                        batch_encode_calls := batch_encode_calls st @ snd (snd embedded) \<rparr>;
               st = (if new_cache \<noteq> [] then save_cache e st new_cache else st)
           in build_metadata_indices st)"

definition needs_rebuild :: "env \<Rightarrow> conversation_index \<Rightarrow> bool" where
  "needs_rebuild e st = (get_sessions_fingerprint e \<noteq> sessions_fingerprint st)"

definition ensure_index :: "env \<Rightarrow> conversation_index \<Rightarrow> conversation_index" where
  "ensure_index e st =
     (if embeddings st = None \<or> needs_rebuild e st then build_index e st else st)"

subsection \<open>Search\<close>

text \<open>The date filter of \<^verbatim>\<open>search\<close>: a missing bound is \<^verbatim>\<open>float("-inf")\<close> or
  \<^verbatim>\<open>float("inf")\<close>, whose left insertion points among finite timestamps are the two
  ends of the array.\<close>

definition candidate_indices_of ::
  "conversation_index \<Rightarrow> datetime option \<Rightarrow> datetime option \<Rightarrow> nat list" where
  "candidate_indices_of st after before =
     (if after \<noteq> None \<or> before \<noteq> None
      then
        let start_idx = (case after of Some a \<Rightarrow> searchsorted_left (sorted_timestamps st) a
                         | None \<Rightarrow> 0);
            end_idx = (case before of Some b \<Rightarrow> searchsorted_left (sorted_timestamps st) b
                       | None \<Rightarrow> length (sorted_timestamps st))
        in take (end_idx - start_idx) (drop start_idx (timestamp_order st))
      else [0..<length (messages st)])"

definition dot :: "real list \<Rightarrow> real list \<Rightarrow> real" where
  "dot u v = sum_list (map (\<lambda>(x, y). x * y) (zip u v))"

text \<open>\<^verbatim>\<open>np.dot(self._embeddings[candidate_indices], query_embedding)\<close>.\<close>

definition similarities_of :: "real list list \<Rightarrow> nat list \<Rightarrow> real list \<Rightarrow> real list" where
  "similarities_of embs candidate_indices query_embedding =
     (let candidate_embeddings = map (\<lambda>i. embs ! i) candidate_indices
      in map (\<lambda>row. dot row query_embedding) candidate_embeddings)"

text \<open>\<^verbatim>\<open>np.argsort(similarities)[::-1]\<close>.\<close>

definition sorted_local_indices_of :: "real list \<Rightarrow> nat list" where
  "sorted_local_indices_of similarities = rev (argsort similarities)"

text \<open>The loop \<^verbatim>\<open>for local_idx in sorted_local_indices\<close>, with its \<^verbatim>\<open>break\<close> on a
  score below the threshold, its two \<^verbatim>\<open>continue\<close> for the filters and its \<^verbatim>\<open>break\<close>
  when \<^verbatim>\<open>max_results\<close> is reached. \<^verbatim>\<open>if workspace\<close> is false for \<^verbatim>\<open>None\<close> and for the
  empty string; a \<^verbatim>\<open>Source\<close> is always truthy.\<close>

fun search_walk ::
  "indexed_message list \<Rightarrow> nat list \<Rightarrow> real list \<Rightarrow> string option \<Rightarrow> source option \<Rightarrow> real
     \<Rightarrow> int \<Rightarrow> nat list \<Rightarrow> (indexed_message \<times> real) list \<Rightarrow> (indexed_message \<times> real) list" where
  "search_walk msgs candidate_indices similarities workspace_filter source_filter threshold
     max_results [] results = results"
| "search_walk msgs candidate_indices similarities workspace_filter source_filter threshold
     max_results (local_idx # rest) results =
     (let score = similarities ! local_idx
      in if score < threshold then results
         else
           let global_idx = candidate_indices ! local_idx;
               msg = msgs ! global_idx
           in if (case workspace_filter of
                    Some w \<Rightarrow> w \<noteq> [] \<and> \<not> prefix w (workspace msg) | None \<Rightarrow> False)
              then search_walk msgs candidate_indices similarities workspace_filter source_filter
                     threshold max_results rest results
              else if (case source_filter of Some s \<Rightarrow> source msg \<noteq> s | None \<Rightarrow> False)
              then search_walk msgs candidate_indices similarities workspace_filter source_filter
                     threshold max_results rest results
              else
                let results = results @ [(msg, score)]
                in if int (length results) \<ge> max_results then results
                   else search_walk msgs candidate_indices similarities workspace_filter
                          source_filter threshold max_results rest results)"

definition search ::
  "env \<Rightarrow> conversation_index \<Rightarrow> string \<Rightarrow> string option \<Rightarrow> source option \<Rightarrow> real \<Rightarrow> int
     \<Rightarrow> datetime option \<Rightarrow> datetime option
     \<Rightarrow> conversation_index \<times> (indexed_message \<times> real) list" where
  "search e st0 query workspace_filter source_filter threshold max_results after before =
     (let st = ensure_index e st0
      in (st,
          case embeddings st of
            None \<Rightarrow> []
          | Some embs \<Rightarrow>
              if length embs = 0 then []
              else
                let candidate_indices = candidate_indices_of st after before
                in if length candidate_indices = 0 then []
                   else
                     let query_embedding = model_encode e query;
                         similarities = similarities_of embs candidate_indices query_embedding;
                         sorted_local_indices = sorted_local_indices_of similarities
                     in search_walk (messages st) candidate_indices similarities
                          workspace_filter source_filter threshold max_results
                          sorted_local_indices []))"

subsection \<open>Context window\<close>

definition get_messages_by_session :: "conversation_index \<Rightarrow> string \<Rightarrow> indexed_message list" where
  "get_messages_by_session st sid =
     sort_key message_index (filter (\<lambda>m. session_id m = sid) (messages st))"

definition get_context_window ::
  "conversation_index \<Rightarrow> indexed_message \<Rightarrow> int \<Rightarrow> indexed_message list" where
  "get_context_window st message context_size =
     (let session_messages = get_messages_by_session st (session_id message)
      in case List.find (\<lambda>(i, m). uuid m = uuid message) (List.enumerate 0 session_messages) of
           None \<Rightarrow> [message]
         | Some (msg_idx, m) \<Rightarrow>
             let start = max 0 (int msg_idx - context_size);
                 end = min (int (length session_messages)) (int msg_idx + context_size + 1)
             in py_slice session_messages start end)"

section \<open>Query engine (query.py)\<close>

datatype error = ValueError string

text \<open>\<^verbatim>\<open>value.replace("Z", "+00:00")\<close> replaces every \<^verbatim>\<open>Z\<close> of the string.\<close>

fun replace_Z :: "string \<Rightarrow> string" where
  "replace_Z [] = []"
| "replace_Z (c # cs) = (if c = CHR ''Z'' then ''+00:00'' @ replace_Z cs else c # replace_Z cs)"

text \<open>\<^verbatim>\<open>dt.replace(tzinfo=None) if dt.tzinfo else dt\<close>: in both cases the wall-clock
  datetime, without its offset.\<close>

definition parse_date_filter :: "env \<Rightarrow> string option \<Rightarrow> error + datetime option" where
  "parse_date_filter e v =
     (case v of
        None \<Rightarrow> Inr None
      | Some val \<Rightarrow>
          (case fromisoformat e (replace_Z val) of
             None \<Rightarrow> Inl (ValueError (''Invalid date format: '' @ val
                                       @ ''. Use ISO 8601 (e.g., 2025-01-15)''))
           | Some (dt, tzinfo) \<Rightarrow> Inr (Some dt)))"

definition truncate_content :: "string \<Rightarrow> string" where
  "truncate_content content =
     (let max_length = 2000
      in if length content \<le> max_length then content
         else take (max_length - 3) content @ ''...'')"

subsection \<open>Deduplication\<close>

text \<open>\<^verbatim>\<open>by_session[msg.session_id].append((msg, score))\<close> on a \<^verbatim>\<open>defaultdict(list)\<close>:
  a dictionary keeps its keys in the order of their first insertion.\<close>

fun group_append :: "'k \<Rightarrow> 'v \<Rightarrow> ('k \<times> 'v list) list \<Rightarrow> ('k \<times> 'v list) list" where
  "group_append k v [] = [(k, [v])]"
| "group_append k v ((k', vs) # rest) =
     (if k' = k then (k', vs @ [v]) # rest else (k', vs) # group_append k v rest)"

definition by_session_of ::
  "(indexed_message \<times> real) list \<Rightarrow> (string \<times> (indexed_message \<times> real) list) list" where
  "by_session_of results =
     foldl (\<lambda>by_session (msg, score). group_append (session_id msg) (msg, score) by_session)
       [] results"

text \<open>One iteration of \<^verbatim>\<open>for msg, score in session_results\<close> on the list \<^verbatim>\<open>kept\<close>.\<close>

definition dedup_step ::
  "int \<Rightarrow> (indexed_message \<times> real) list \<Rightarrow> indexed_message \<times> real
     \<Rightarrow> (indexed_message \<times> real) list" where
  "dedup_step dedup_distance kept c =
     (case c of (msg, score) \<Rightarrow>
        if kept = [] then kept @ [(msg, score)]
        else
          (case last kept of (last_msg, last_score) \<Rightarrow>
             if message_index msg - message_index last_msg \<le> dedup_distance
             then (if score > last_score then butlast kept @ [(msg, score)] else kept)
             else kept @ [(msg, score)]))"

definition dedup_session ::
  "int \<Rightarrow> (indexed_message \<times> real) list \<Rightarrow> (indexed_message \<times> real) list" where
  "dedup_session dedup_distance session_results =
     foldl (dedup_step dedup_distance) []
       (sort_key (\<lambda>x. message_index (fst x)) session_results)"

definition deduplicate_results ::
  "(indexed_message \<times> real) list \<Rightarrow> int \<Rightarrow> (indexed_message \<times> real) list" where
  "deduplicate_results results context_size =
     (if results = [] then []
      else
        let by_session = by_session_of results;
            dedup_distance = 2 * context_size;
            deduplicated = concat (map (\<lambda>(sid, session_results).
                                          dedup_session dedup_distance session_results)
                                     by_session)
        in sorted_reverse snd deduplicated)"

text \<open>The merge rule in the words of the specification, for a session's matches sorted by
  position: \<open>merge_walk d k cs\<close> walks the candidates \<open>cs\<close> with \<open>k\<close> the last kept item.
  A candidate within distance \<open>d\<close> of the last kept item merges into it, and the one with
  the higher score is kept; any other candidate starts a new kept entry.\<close>

fun merge_walk ::
  "int \<Rightarrow> indexed_message \<times> real \<Rightarrow> (indexed_message \<times> real) list
     \<Rightarrow> (indexed_message \<times> real) list" where
  "merge_walk d k [] = [k]"
| "merge_walk d k (c # cs) =
     (if message_index (fst c) - message_index (fst k) \<le> d
      then merge_walk d (if snd c > snd k then c else k) cs
      else k # merge_walk d c cs)"

definition merge_sorted ::
  "int \<Rightarrow> (indexed_message \<times> real) list \<Rightarrow> (indexed_message \<times> real) list" where
  "merge_sorted d xs = (case xs of [] \<Rightarrow> [] | x # rest \<Rightarrow> merge_walk d x rest)"

text \<open>The keys of a list in the order of their first occurrence.\<close>

definition first_seen :: "'k list \<Rightarrow> 'k list" where
  "first_seen ks = rev (remdups (rev ks))"

subsection \<open>search\_conversations\<close>

text \<open>\<^verbatim>\<open>x or default\<close> for an optional number: \<^verbatim>\<open>None\<close> and zero are falsy.\<close>

definition or_default :: "'a::zero option \<Rightarrow> 'a \<Rightarrow> 'a" where
  "or_default x d = (case x of None \<Rightarrow> d | Some v \<Rightarrow> if v = 0 then d else v)"

definition make_result ::
  "env \<Rightarrow> conversation_index \<Rightarrow> int \<Rightarrow> indexed_message \<times> real \<Rightarrow> search_result" where
  "make_result e st context_size p =
     (case p of (msg, score) \<Rightarrow>
        let context_window = get_context_window st msg context_size;
            context = map (\<lambda>m. \<lparr> cm_role = role m,
                                  cm_content = truncate_content (searchable_text m),
                                  cm_timestamp = timestamp m,
                                  cm_is_match = (uuid m = uuid msg) \<rparr>) context_window
        in \<lparr> res_matched_message =
               \<lparr> mm_role = role msg, mm_content = truncate_content (searchable_text msg),
                 mm_timestamp = timestamp msg, mm_workspace = workspace msg,
                 mm_session_id = session_id msg, mm_uuid = uuid msg,
                 mm_source = source msg \<rparr>,
             res_score = round4 e score,
             res_context = context \<rparr>)"

definition search_conversations ::
  "env \<Rightarrow> conversation_index \<Rightarrow> string \<Rightarrow> string option \<Rightarrow> source option
     \<Rightarrow> string option \<Rightarrow> string option \<Rightarrow> int option \<Rightarrow> real option \<Rightarrow> int option \<Rightarrow> int
     \<Rightarrow> conversation_index \<times> (error + search_response)" where
  "search_conversations e index query workspace_filter source_filter after before
     context_size0 threshold0 max_results0 offset =
     (let config = config_search e;
          context_size = or_default context_size0 (default_context_window config);
          threshold = or_default threshold0 (default_threshold config);
          max_results = or_default max_results0 (default_max_results config)
      in case parse_date_filter e after of
           Inl err \<Rightarrow> (index, Inl err)
         | Inr after_dt \<Rightarrow>
             (case parse_date_filter e before of
                Inl err \<Rightarrow> (index, Inl err)
              | Inr before_dt \<Rightarrow>
                  let found = search e index query workspace_filter source_filter threshold
                                ((offset + max_results) * 3) after_dt before_dt;
                      index = fst found;
                      raw_results = snd found
                  in if raw_results = []
                     then (index,
                           Inr \<lparr> sr_results = [], sr_query = query, sr_total_matches = 0,
                                 sr_offset = 0, sr_has_more = False,
                                 sr_excluded_sessions = excluded_session_count index,
                                 sr_hint = Some (generate_hint 0 0 0 max_results False) \<rparr>)
                     else
                       let deduplicated = deduplicate_results raw_results context_size;
                           total_n = int (length deduplicated);
                           paginated = py_slice deduplicated offset (offset + max_results);
                           results = map (make_result e index context_size) paginated;
                           has_more = (offset + int (length results) < total_n)
                       in (index,
                           Inr \<lparr> sr_results = results, sr_query = query,
                                 sr_total_matches = total_n, sr_offset = offset,
                                 sr_has_more = has_more,
                                 sr_excluded_sessions = excluded_session_count index,
                                 sr_hint = Some (generate_hint total_n offset
                                                   (int (length results)) max_results
                                                   has_more) \<rparr>)))"

section \<open>Notions used in the statements\<close>

text \<open>A message passes the two filters of \<^verbatim>\<open>search\<close> when neither \<^verbatim>\<open>continue\<close> is
  taken: the workspace filter is absent, empty or a prefix of the message's workspace, and
  the source filter is absent or equal to the message's source.\<close>

definition passes_filters :: "string option \<Rightarrow> source option \<Rightarrow> indexed_message \<Rightarrow> bool" where
  "passes_filters workspace_filter source_filter msg =
     ((case workspace_filter of Some w \<Rightarrow> w = [] \<or> prefix w (workspace msg) | None \<Rightarrow> True)
      \<and> (case source_filter of Some s \<Rightarrow> source msg = s | None \<Rightarrow> True))"

text \<open>The pair \<^verbatim>\<open>(msg, score)\<close> that the walk forms for a local index.\<close>

definition scored_candidate ::
  "indexed_message list \<Rightarrow> nat list \<Rightarrow> real list \<Rightarrow> nat \<Rightarrow> indexed_message \<times> real" where
  "scored_candidate msgs candidate_indices similarities local_idx =
     (msgs ! (candidate_indices ! local_idx), similarities ! local_idx)"

text \<open>The local indices the walk examines: the ranked ones before the first whose score is
  below the threshold.\<close>

definition examined_of :: "real \<Rightarrow> real list \<Rightarrow> nat list" where
  "examined_of threshold similarities =
     takeWhile (\<lambda>i. \<not> similarities ! i < threshold) (sorted_local_indices_of similarities)"


text \<open>Names for the intermediate values of \<^verbatim>\<open>build_index\<close>: the sessions the budget
  selects and excludes, the messages loaded for the selection, their content hashes, and
  the result of the embedding loop (matrix, \<^verbatim>\<open>new_cache\<close>, batches sent to the model).\<close>

definition selected_sessions :: "env \<Rightarrow> session_info list" where
  "selected_sessions e = fst (select_sessions_within_limit (list_all_sessions e) (get_memory_limit e))"

definition excluded_sessions :: "env \<Rightarrow> session_info list" where
  "excluded_sessions e = snd (select_sessions_within_limit (list_all_sessions e) (get_memory_limit e))"

definition loaded_messages :: "env \<Rightarrow> indexed_message list" where
  "loaded_messages e = load_messages_for_sessions e (selected_sessions e)"

definition message_hashes :: "env \<Rightarrow> string list" where
  "message_hashes e = map (\<lambda>msg. compute_text_hash e (searchable_text msg)) (loaded_messages e)"

definition embedded_of ::
  "env \<Rightarrow> conversation_index
     \<Rightarrow> real list list \<times> (string \<times> real list) list \<times> string list list" where
  "embedded_of e st =
     (let cache = load_cache st;
          hashes = message_hashes e;
          missing = filter (\<lambda>(i, msg). cache (compute_text_hash e (searchable_text msg)) = None)
                      (List.enumerate 0 (loaded_messages e));
          zeros = replicate (length (loaded_messages e)) (replicate EMBEDDING_DIM 0);
          loaded = map (\<lambda>(row, text_hash). (case cache text_hash of Some v \<Rightarrow> v | None \<Rightarrow> row))
                     (zip zeros hashes)
      in batch_loop e hashes (map (\<lambda>(i, msg). searchable_text msg) missing) (map fst missing) 0
           (loaded, [], []))"

text \<open>The batch of texts that starts at \<open>s\<close>, and the batches from \<open>s\<close> on.\<close>

definition batch_texts_at :: "string list \<Rightarrow> nat \<Rightarrow> string list" where
  "batch_texts_at T s = take (min (s + 100) (length T) - s) (drop s T)"

function batches_from :: "string list \<Rightarrow> nat \<Rightarrow> string list list" where
  "batches_from T s = (if s < length T then take 100 (drop s T) # batches_from T (s + 100) else [])"
  by pat_completeness auto
termination
  by (relation "measure (\<lambda>(T, s). length T - s)") auto

declare batches_from.simps [simp del]


text \<open>The texts \<^verbatim>\<open>build_index\<close> sends to the model: those of the loaded messages whose
  content hash is not in the cache loaded at the start of the build, in message order and
  once for each such message; and the same messages with their positions.\<close>

definition missing_texts :: "env \<Rightarrow> conversation_index \<Rightarrow> string list" where
  "missing_texts e st =
     map searchable_text
       (filter (\<lambda>msg. load_cache st (compute_text_hash e (searchable_text msg)) = None)
          (loaded_messages e))"

definition missing_enum :: "env \<Rightarrow> conversation_index \<Rightarrow> (nat \<times> indexed_message) list" where
  "missing_enum e st =
     filter (\<lambda>(i, msg). load_cache st (compute_text_hash e (searchable_text msg)) = None)
       (List.enumerate 0 (loaded_messages e))"


section \<open>Example inputs\<close>

text \<open>Three sessions: \<open>sessA\<close> is the newest and small, \<open>sessB\<close> is older and large,
  \<open>sessC\<close> has no timestamp and no known message count.\<close>

definition sessA :: session_info where
  "sessA = \<lparr> si_session_id = ''a'', si_workspace = ''/w'', si_message_count = 1,
     si_created = None, si_modified = Some 30, si_source = CLI \<rparr>"

definition sessB :: session_info where
  "sessB = \<lparr> si_session_id = ''b'', si_workspace = ''/w'', si_message_count = 100,
     si_created = Some 20, si_modified = None, si_source = IDE \<rparr>"

definition sessC :: session_info where
  "sessC = \<lparr> si_session_id = ''c'', si_workspace = ''/w'', si_message_count = 0,
     si_created = None, si_modified = None, si_source = CLI \<rparr>"

text \<open>Three messages of session \<open>a\<close>, at positions 4, 5 and 20, with timestamps 5, 10
  and 15. The first and the last have the same text.\<close>

definition example_message :: "string \<Rightarrow> datetime \<Rightarrow> string \<Rightarrow> int \<Rightarrow> indexed_message" where
  "example_message u t text pos =
     \<lparr> uuid = u, session_id = ''a'', workspace = ''/w'', timestamp = t, role = ''user'',
       searchable_text = text, message_index = pos, source = CLI \<rparr>"

definition msg1 :: indexed_message where
  "msg1 = example_message ''u1'' 5 ''alpha'' 4"

definition msg2 :: indexed_message where
  "msg2 = example_message ''u2'' 10 ''beta'' 5"

definition msg3 :: indexed_message where
  "msg3 = example_message ''u3'' 15 ''alpha'' 20"

text \<open>An environment with the one session \<open>sessA\<close> and its three messages, no memory
  limit, an empty cache file, the identity for the hash, an embedding model that maps
  the text \<open>beta\<close> to one unit vector and every other text to the other, and a date
  parser that accepts two strings.\<close>

definition env0 :: env where
  "env0 = \<lparr> cli_enabled = True, ide_enabled = False,
     list_cli_sessions = [sessA], list_ide_sessions = [],
     load_cli_session_messages = (\<lambda>s. if si_session_id s = ''a'' then [msg1, msg2, msg3] else []),
     load_ide_session_messages = (\<lambda>s. []),
     get_memory_limit = 0,
     md5_hexdigest = (\<lambda>t. t),
     float_str = (\<lambda>r. ''t''),
     model_encode = (\<lambda>t. if t = ''beta'' then [0, 1] else [1, 0]),
     round4 = (\<lambda>r. r),
     fromisoformat = (\<lambda>s. if s = ''2025-01-15'' then Some (7, None)
                          else if s = ''2025-01-15T10:00:00+00:00'' then Some (8, Some 0)
                          else None),
     config_search = SearchConfig,
     cache_write_ok = True \<rparr>"

text \<open>The index that the first build produces in this environment.\<close>

definition built0 :: conversation_index where
  "built0 = \<lparr> messages = [msg1, msg2, msg3], embeddings = Some [[1, 0], [0, 1], [1, 0]],
     text_hashes = [''alpha'', ''beta'', ''alpha''], sessions_fingerprint = ''a:t'',
     excluded_session_count = 0, timestamp_order = [0, 1, 2], sorted_timestamps = [5, 10, 15],
     cache_file = Some (Map.empty ++ map_of [(''alpha'', [1, 0]), (''beta'', [0, 1])]),
     batch_encode_calls = [[''alpha'', ''beta'', ''alpha'']], builds = 1 \<rparr>"

text \<open>The same environment with 101 messages of one text and a cache file that cannot be
  written.\<close>

definition env101 :: env where
  "env101 = env0\<lparr> load_cli_session_messages :=
                      (\<lambda>s. map (\<lambda>i. example_message ''u'' 5 ''alpha'' (int i)) [0..<101]),
                    cache_write_ok := False \<rparr>"

section \<open>Properties of the Python built-ins\<close>

lemma sorted_reverse_mset: "mset (sorted_reverse f xs) = mset xs"
  by (simp add: sorted_reverse_def)

lemma sorted_reverse_desc: "sorted_wrt (\<lambda>a b. f b \<le> f a) (sorted_reverse f xs)"
proof -
  have "sorted (map f (sort_key f (rev xs)))" by simp
  then have "sorted_wrt (\<lambda>a b. f a \<le> f b) (sort_key f (rev xs))"
    by (simp add: sorted_map)
  then show ?thesis
    by (simp add: sorted_reverse_def sorted_wrt_rev)
qed

section \<open>Memory budgeting\<close>

lemma select_loop_greedy:
  "select_loop L xs sel exc cur =
     (sel @ greedy_admitted L cur xs, exc @ greedy_rejected L cur xs)"
  by (induction xs arbitrary: sel exc cur) (simp_all add: Let_def)

lemma greedy_admitted_sum:
  "cur \<le> L \<Longrightarrow> cur + sum_list (map estimated_bytes (greedy_admitted L cur xs)) \<le> L"
proof (induction xs arbitrary: cur)
  case Nil
  then show ?case by simp
next
  case (Cons s ss)
  show ?case
  proof (cases "cur + estimated_bytes s \<le> L")
    case True
    from Cons.IH [OF True] True show ?thesis by (simp add: add.assoc)
  next
    case False
    with Cons.IH [OF Cons.prems] show ?thesis by simp
  qed
qed

lemma greedy_partition:
  "mset (greedy_admitted L cur xs) + mset (greedy_rejected L cur xs) = mset xs"
  by (induction xs arbitrary: cur) simp_all

lemma greedy_admitted_subseq: "subseq (greedy_admitted L cur xs) xs"
  by (induction xs arbitrary: cur) (auto intro: list_emb.intros)

lemma greedy_rejected_subseq: "subseq (greedy_rejected L cur xs) xs"
  by (induction xs arbitrary: cur) (auto intro: list_emb.intros)

lemma greedy_admitted_set: "set (greedy_admitted L cur xs) \<subseteq> set xs"
  by (induction xs arbitrary: cur) auto

lemma greedy_rejected_set: "set (greedy_rejected L cur xs) \<subseteq> set xs"
  by (induction xs arbitrary: cur) auto

lemma greedy_disjoint:
  "distinct xs \<Longrightarrow> set (greedy_admitted L cur xs) \<inter> set (greedy_rejected L cur xs) = {}"
proof (induction xs arbitrary: cur)
  case Nil
  then show ?case by simp
next
  case (Cons s ss)
  have a: "set (greedy_admitted L c ss) \<subseteq> set ss" for c
    by (rule greedy_admitted_set)
  have r: "set (greedy_rejected L c ss) \<subseteq> set ss" for c
    by (rule greedy_rejected_set)
  from Cons.prems have ns: "s \<notin> set ss" and ds: "distinct ss" by auto
  have na: "s \<notin> set (greedy_admitted L c ss)" for c using a [of c] ns by blast
  have nr: "s \<notin> set (greedy_rejected L c ss)" for c using r [of c] ns by blast
  show ?case using Cons.IH [OF ds] na nr by simp
qed

text \<open>
  C4, as the code has it. For a limit \<open>L \<le> 0\<close> every session is selected and none is
  excluded. For \<open>L > 0\<close> the sessions are scanned newest first (a stable descending sort
  on the fallback timestamp); the selected sessions are those the greedy rule admits, the
  excluded ones those it rejects, and the scan continues after a rejected session, so the
  selection is a subsequence of the newest-first order and need not be a prefix of it.
  The estimated bytes of the selection (message count, or 10 when it is not positive, times
  2600) sum to at most \<open>L\<close>; selected and excluded together are exactly the input
  sessions, and no session of a duplicate-free input is in both.
\<close>

theorem select_sessions_greedy:
  "(L \<le> 0 \<longrightarrow> select_sessions_within_limit ss L = (ss, [])) \<and>
   (0 < L \<longrightarrow>
      (let newest = sorted_reverse timestamp_fallback ss;
           selected = fst (select_sessions_within_limit ss L);
           excluded = snd (select_sessions_within_limit ss L)
       in sum_list (map estimated_bytes selected) \<le> L
          \<and> sorted_wrt (\<lambda>a b. timestamp_fallback b \<le> timestamp_fallback a) newest
          \<and> mset newest = mset ss
          \<and> selected = greedy_admitted L 0 newest
          \<and> excluded = greedy_rejected L 0 newest
          \<and> subseq selected newest \<and> subseq excluded newest
          \<and> mset selected + mset excluded = mset ss
          \<and> (distinct ss \<longrightarrow> set selected \<inter> set excluded = {})))"
proof (intro conjI impI)
  assume "L \<le> 0"
  then show "select_sessions_within_limit ss L = (ss, [])"
    by (simp add: select_sessions_within_limit_def)
next
  assume pos: "0 < L"
  let ?n = "sorted_reverse timestamp_fallback ss"
  have sel: "fst (select_sessions_within_limit ss L) = greedy_admitted L 0 ?n"
    and exc: "snd (select_sessions_within_limit ss L) = greedy_rejected L 0 ?n"
    using pos by (simp_all add: select_sessions_within_limit_def select_loop_greedy)
  have d: "distinct ss \<Longrightarrow> distinct ?n"
    by (metis sorted_reverse_mset mset_eq_imp_distinct_iff)
  have s: "sum_list (map estimated_bytes (greedy_admitted L 0 ?n)) \<le> L"
    using greedy_admitted_sum [of 0 L ?n] pos by simp
  show "let newest = ?n;
           selected = fst (select_sessions_within_limit ss L);
           excluded = snd (select_sessions_within_limit ss L)
       in sum_list (map estimated_bytes selected) \<le> L
          \<and> sorted_wrt (\<lambda>a b. timestamp_fallback b \<le> timestamp_fallback a) newest
          \<and> mset newest = mset ss
          \<and> selected = greedy_admitted L 0 newest
          \<and> excluded = greedy_rejected L 0 newest
          \<and> subseq selected newest \<and> subseq excluded newest
          \<and> mset selected + mset excluded = mset ss
          \<and> (distinct ss \<longrightarrow> set selected \<inter> set excluded = {})"
    unfolding Let_def sel exc
    using s d greedy_disjoint [of ?n L 0]
    by (simp add: sorted_reverse_desc sorted_reverse_mset greedy_admitted_subseq
        greedy_rejected_subseq greedy_partition)
qed

lemmas example_sessions = sessA_def sessB_def sessC_def timestamp_fallback_def datetime_min_def
  estimated_bytes_def BYTES_PER_MESSAGE_def

theorem select_sessions_greedy_witness:
  "(0::int) < 30000 \<and> distinct [sessC, sessB, sessA]
   \<and> fst (select_sessions_within_limit [sessC, sessB, sessA] 30000)
       = greedy_admitted 30000 0 [sessA, sessB, sessC]
   \<and> sum_list (map estimated_bytes
        (fst (select_sessions_within_limit [sessC, sessB, sessA] 30000))) \<le> 30000
   \<and> set (fst (select_sessions_within_limit [sessC, sessB, sessA] 30000))
       \<inter> set (snd (select_sessions_within_limit [sessC, sessB, sessA] 30000)) = {}
   \<and> (0::int) \<le> 0
   \<and> select_sessions_within_limit [sessC, sessB, sessA] 0 = ([sessC, sessB, sessA], [])"
proof -
  have n: "sorted_reverse timestamp_fallback [sessC, sessB, sessA] = [sessA, sessB, sessC]"
    by (simp add: sorted_reverse_def example_sessions)
  have d: "distinct [sessC, sessB, sessA]"
    by (simp add: example_sessions)
  show ?thesis
    using select_sessions_greedy [of 30000 "[sessC, sessB, sessA]"]
      select_sessions_greedy [of 0 "[sessC, sessB, sessA]"] d
    unfolding Let_def n by (simp add: example_sessions)
qed

text \<open>The selection is not a prefix of the newest-first order: with a limit of 30000 bytes
  the newest session (2600 bytes) is selected, the next one (260000 bytes) is excluded, and
  the oldest one (26000 bytes) is selected after it.\<close>

theorem select_sessions_not_prefix:
  "sorted_reverse timestamp_fallback [sessC, sessB, sessA] = [sessA, sessB, sessC]
   \<and> select_sessions_within_limit [sessC, sessB, sessA] 30000 = ([sessA, sessC], [sessB])
   \<and> \<not> prefix (fst (select_sessions_within_limit [sessC, sessB, sessA] 30000))
         (sorted_reverse timestamp_fallback [sessC, sessB, sessA])"
  by (simp add: select_sessions_within_limit_def sorted_reverse_def example_sessions)

section \<open>Pagination hint\<close>

lemmas str_int_eval = str_int_def str_nat.simps digit_char_def

section \<open>Deduplication\<close>

lemma dedup_step_snoc:
  "dedup_step d (ks @ [k]) c =
     (if message_index (fst c) - message_index (fst k) \<le> d
      then ks @ [if snd c > snd k then c else k]
      else ks @ [k, c])"
  by (cases c; cases k) (simp add: dedup_step_def)

lemma dedup_step_Nil: "dedup_step d [] c = [c]"
  by (cases c) (simp add: dedup_step_def)

lemma foldl_dedup_step:
  "foldl (dedup_step d) (ks @ [k]) cs = ks @ merge_walk d k cs"
proof (induction cs arbitrary: ks k)
  case Nil
  show ?case by simp
next
  case (Cons c cs)
  show ?case
  proof (cases "message_index (fst c) - message_index (fst k) \<le> d")
    case True
    then show ?thesis
      using Cons.IH [of ks "if snd c > snd k then c else k"]
      by (simp add: dedup_step_snoc)
  next
    case False
    then show ?thesis
      using Cons.IH [of "ks @ [k]" c]
      by (simp add: dedup_step_snoc)
  qed
qed

lemma foldl_dedup_step_Nil: "foldl (dedup_step d) [] xs = merge_sorted d xs"
proof (cases xs)
  case Nil
  then show ?thesis by (simp add: merge_sorted_def)
next
  case (Cons x rest)
  then show ?thesis
    using foldl_dedup_step [of d "[]" x rest]
    by (simp add: merge_sorted_def dedup_step_Nil)
qed

lemma first_seen_snoc:
  "first_seen (ks @ [k]) = (if k \<in> set ks then first_seen ks else first_seen ks @ [k])"
  by (simp add: first_seen_def)

lemma set_first_seen: "set (first_seen ks) = set ks"
  by (simp add: first_seen_def)

lemma distinct_first_seen: "distinct (first_seen ks)"
  by (simp add: first_seen_def)

lemma group_append_present:
  "k \<in> set ks \<Longrightarrow> distinct ks \<Longrightarrow>
   group_append k v (map (\<lambda>k'. (k', g k')) ks)
     = map (\<lambda>k'. (k', if k' = k then g k' @ [v] else g k')) ks"
  by (induction ks) auto

lemma group_append_absent:
  "k \<notin> set ks \<Longrightarrow>
   group_append k v (map (\<lambda>k'. (k', g k')) ks) = map (\<lambda>k'. (k', g k')) ks @ [(k, [v])]"
  by (induction ks) auto

lemma by_session_of_snoc:
  "by_session_of (rs @ [r]) = group_append (session_id (fst r)) r (by_session_of rs)"
  by (cases r) (simp add: by_session_of_def)

lemma by_session_of_groups:
  "by_session_of rs =
     map (\<lambda>sid. (sid, filter (\<lambda>x. session_id (fst x) = sid) rs))
       (first_seen (map (\<lambda>x. session_id (fst x)) rs))"
proof (induction rs rule: rev_induct)
  case Nil
  show ?case by (simp add: by_session_of_def first_seen_def)
next
  case (snoc r rs)
  let ?key = "\<lambda>x. session_id (fst x)"
  let ?ks = "first_seen (map ?key rs)"
  show ?case
  proof (cases "?key r \<in> set (map ?key rs)")
    case True
    then have "?key r \<in> set ?ks" by (simp add: set_first_seen)
    then show ?thesis
      using True snoc.IH distinct_first_seen [of "map ?key rs"]
      by (simp add: by_session_of_snoc first_seen_snoc group_append_present)
  next
    case False
    then have n: "?key r \<notin> set ?ks" by (simp add: set_first_seen)
    have e: "filter (\<lambda>x. ?key x = ?key r) rs = []"
      using False by (force simp: filter_empty_conv image_iff)
    have m: "map (\<lambda>sid. (sid, filter (\<lambda>x. ?key x = sid) (rs @ [r]))) ?ks
           = map (\<lambda>sid. (sid, filter (\<lambda>x. ?key x = sid) rs)) ?ks"
      using n by (intro map_cong) auto
    have l: "filter (\<lambda>x. ?key x = ?key r) (rs @ [r]) = [r]"
      using e by simp
    have "by_session_of (rs @ [r])
            = map (\<lambda>sid. (sid, filter (\<lambda>x. ?key x = sid) rs)) ?ks @ [(?key r, [r])]"
      using n snoc.IH by (simp add: by_session_of_snoc group_append_absent)
    also have "\<dots> = map (\<lambda>sid. (sid, filter (\<lambda>x. ?key x = sid) (rs @ [r]))) (?ks @ [?key r])"
      by (simp only: map_append m l list.map)
    also have "?ks @ [?key r] = first_seen (map ?key (rs @ [r]))"
      using False by (simp add: first_seen_snoc)
    finally show ?thesis .
  qed
qed

text \<open>
  C3. Deduplication groups the results by session id (sessions in the order of their first
  result), sorts each group by message position ascending and merges it: a candidate
  merges into the last kept item if and only if its position minus the position of the last
  kept item is at most \<open>2 * context_size\<close>, and then whichever of the two has the higher
  score is kept and is the item later candidates are compared with; any other candidate
  starts a new kept entry. The kept entries of all sessions are sorted by score descending.
  Two matches of one session at positions 4 and 5 collapse into one entry with the higher
  score when \<open>context_size = 3\<close>.
\<close>

theorem deduplicate_results_merge:
  "deduplicate_results rs c =
     sorted_reverse snd
       (concat (map (\<lambda>sid. merge_sorted (2 * c)
                               (sort_key (\<lambda>x. message_index (fst x))
                                  (filter (\<lambda>x. session_id (fst x) = sid) rs)))
                  (first_seen (map (\<lambda>x. session_id (fst x)) rs))))
   \<and> sorted_wrt (\<lambda>a b. snd b \<le> snd a) (deduplicate_results rs c)
   \<and> dedup_step (2 * c) (ks @ [(lm, ls)]) (m, s) =
       (if message_index m - message_index lm \<le> 2 * c
        then ks @ [if s > ls then (m, s) else (lm, ls)]
        else ks @ [(lm, ls), (m, s)])
   \<and> foldl (dedup_step (2 * c)) (ks @ [k]) cs = ks @ merge_walk (2 * c) k cs
   \<and> (session_id a = session_id b \<and> message_index a = 4 \<and> message_index b = 5 \<longrightarrow>
        deduplicate_results [(a, sa), (b, sb)] 3 = [if sb > sa then (b, sb) else (a, sa)]
        \<and> deduplicate_results [(b, sb), (a, sa)] 3 = [if sb > sa then (b, sb) else (a, sa)])"
proof (intro conjI impI)
  show "deduplicate_results rs c =
     sorted_reverse snd
       (concat (map (\<lambda>sid. merge_sorted (2 * c)
                               (sort_key (\<lambda>x. message_index (fst x))
                                  (filter (\<lambda>x. session_id (fst x) = sid) rs)))
                  (first_seen (map (\<lambda>x. session_id (fst x)) rs))))"
    by (simp add: deduplicate_results_def by_session_of_groups dedup_session_def
        foldl_dedup_step_Nil comp_def sorted_reverse_def first_seen_def)
  show "sorted_wrt (\<lambda>a b. snd b \<le> snd a) (deduplicate_results rs c)"
    by (simp add: deduplicate_results_def Let_def sorted_reverse_desc)
  show "dedup_step (2 * c) (ks @ [(lm, ls)]) (m, s) =
       (if message_index m - message_index lm \<le> 2 * c
        then ks @ [if s > ls then (m, s) else (lm, ls)]
        else ks @ [(lm, ls), (m, s)])"
    by (simp add: dedup_step_snoc)
  show "foldl (dedup_step (2 * c)) (ks @ [k]) cs = ks @ merge_walk (2 * c) k cs"
    by (rule foldl_dedup_step)
next
  assume h: "session_id a = session_id b \<and> message_index a = 4 \<and> message_index b = 5"
  then show "deduplicate_results [(a, sa), (b, sb)] 3 = [if sb > sa then (b, sb) else (a, sa)]"
    by (simp add: deduplicate_results_def by_session_of_def dedup_session_def dedup_step_def
        sorted_reverse_def)
  from h show "deduplicate_results [(b, sb), (a, sa)] 3 = [if sb > sa then (b, sb) else (a, sa)]"
    by (simp add: deduplicate_results_def by_session_of_def dedup_session_def dedup_step_def
        sorted_reverse_def)
qed


lemmas example_messages = example_message_def msg1_def msg2_def msg3_def

theorem deduplicate_results_merge_witness:
  "session_id msg1 = session_id msg2 \<and> message_index msg1 = 4 \<and> message_index msg2 = 5
   \<and> deduplicate_results [(msg1, 5 / 10), (msg2, 9 / 10)] 3 = [(msg2, 9 / 10)]
   \<and> deduplicate_results [(msg2, 9 / 10), (msg1, 5 / 10)] 3 = [(msg2, 9 / 10)]"
proof -
  have h: "session_id msg1 = session_id msg2 \<and> message_index msg1 = 4 \<and> message_index msg2 = 5"
    by (simp add: example_messages)
  have i: "session_id msg1 = session_id msg2 \<and> message_index msg1 = 4 \<and> message_index msg2 = 5
    \<longrightarrow> deduplicate_results [(msg1, 5 / 10), (msg2, 9 / 10)] 3
          = [if (9 / 10 :: real) > 5 / 10 then (msg2, 9 / 10) else (msg1, 5 / 10)]
        \<and> deduplicate_results [(msg2, 9 / 10), (msg1, 5 / 10)] 3
          = [if (9 / 10 :: real) > 5 / 10 then (msg2, 9 / 10) else (msg1, 5 / 10)]"
    by (rule deduplicate_results_merge [where a = msg1 and b = msg2 and sa = "5 / 10"
          and sb = "9 / 10", THEN conjunct2, THEN conjunct2, THEN conjunct2, THEN conjunct2])
  from mp [OF i h] h show ?thesis by simp
qed

section \<open>Building the index\<close>

lemma save_cache_fields [simp]:
  "messages (save_cache e st nc) = messages st"
  "embeddings (save_cache e st nc) = embeddings st"
  "text_hashes (save_cache e st nc) = text_hashes st"
  "sessions_fingerprint (save_cache e st nc) = sessions_fingerprint st"
  "excluded_session_count (save_cache e st nc) = excluded_session_count st"
  "timestamp_order (save_cache e st nc) = timestamp_order st"
  "sorted_timestamps (save_cache e st nc) = sorted_timestamps st"
  "batch_encode_calls (save_cache e st nc) = batch_encode_calls st"
  "builds (save_cache e st nc) = builds st"
  by (simp_all add: save_cache_def Let_def)

lemma build_metadata_indices_fields [simp]:
  "messages (build_metadata_indices st) = messages st"
  "embeddings (build_metadata_indices st) = embeddings st"
  "text_hashes (build_metadata_indices st) = text_hashes st"
  "sessions_fingerprint (build_metadata_indices st) = sessions_fingerprint st"
  "excluded_session_count (build_metadata_indices st) = excluded_session_count st"
  "cache_file (build_metadata_indices st) = cache_file st"
  "batch_encode_calls (build_metadata_indices st) = batch_encode_calls st"
  "builds (build_metadata_indices st) = builds st"
  by (simp_all add: build_metadata_indices_def Let_def)


lemma enumerate_missing:
  "filter (\<lambda>(i, msg). c (map h ms ! i) = None) (List.enumerate 0 ms)
     = filter (\<lambda>(i, msg). c (h msg) = None) (List.enumerate 0 ms)"
  by (rule filter_cong) (auto simp: enumerate_eq_zip in_set_zip)

lemma map_snd_filter_enumerate:
  "map snd (filter (\<lambda>(i, msg). P msg) (List.enumerate n ms)) = filter P ms"
  by (induction ms arbitrary: n) auto

lemma build_index_empty:
  "loaded_messages e = [] \<Longrightarrow>
   build_index e st =
     st\<lparr> sessions_fingerprint := get_sessions_fingerprint e, builds := builds st + 1,
         excluded_session_count := int (length (excluded_sessions e)),
         messages := [], embeddings := Some [], text_hashes := [] \<rparr>"
  by (simp add: build_index_def Let_def loaded_messages_def selected_sessions_def
      excluded_sessions_def)

lemma build_index_nonempty:
  "loaded_messages e \<noteq> [] \<Longrightarrow>
   build_index e st =
     (let st1 = st\<lparr> sessions_fingerprint := get_sessions_fingerprint e, builds := builds st + 1,
                    excluded_session_count := int (length (excluded_sessions e)),
                    messages := loaded_messages e, text_hashes := message_hashes e,
                    embeddings := Some (fst (embedded_of e st)),
                    batch_encode_calls := batch_encode_calls st @ snd (snd (embedded_of e st)) \<rparr>;
          new_cache = fst (snd (embedded_of e st))
      in build_metadata_indices (if new_cache \<noteq> [] then save_cache e st1 new_cache else st1))"
  by (simp add: build_index_def Let_def loaded_messages_def selected_sessions_def
      excluded_sessions_def embedded_of_def message_hashes_def load_cache_def enumerate_missing)

lemma batch_loop_stop:
  "\<not> s < length T \<Longrightarrow> batch_loop e h T I s acc = acc"
  by (subst batch_loop.simps) simp

lemma batch_loop_step:
  "s < length T \<Longrightarrow>
   batch_loop e h T I s (E, nc, calls) =
     batch_loop e h T I (s + 100)
       (fst (foldl (store_embedding h) (E, nc)
               (zip (take (min (s + 100) (length T) - s) (drop s I))
                    (map (model_encode e) (batch_texts_at T s)))),
        snd (foldl (store_embedding h) (E, nc)
               (zip (take (min (s + 100) (length T) - s) (drop s I))
                    (map (model_encode e) (batch_texts_at T s)))),
        calls @ [batch_texts_at T s])"
  by (subst batch_loop.simps) (simp add: Let_def batch_texts_at_def)


lemma foldl_store_map:
  "map_of (snd (foldl (store_embedding h) (E, nc) ps))
     = foldl (\<lambda>m (idx, v). m(h ! idx \<mapsto> v)) (map_of nc) ps"
  by (induction ps arbitrary: E nc) (auto simp: store_embedding_def update_conv')


lemma batch_texts_at_take: "batch_texts_at T s = take 100 (drop s T)"
proof -
  have m: "min (s + 100) (length T) - s = min 100 (length (drop s T))" by simp
  have "take (min 100 (length xs)) xs = take 100 xs" for xs :: "string list"
    by (cases "100 \<le> length xs") (simp_all add: min_def)
  then show ?thesis
    unfolding batch_texts_at_def m .
qed

lemma batch_texts_at_props:
  "s < length T \<Longrightarrow> batch_texts_at T s \<noteq> [] \<and> length (batch_texts_at T s) \<le> 100
     \<and> batch_texts_at T s @ drop (s + 100) T = drop s T"
proof -
  assume a: "s < length T"
  have m: "min (s + 100) (length T) - s = min 100 (length (drop s T))" by simp
  have "take (min 100 (length xs)) xs = take 100 xs" for xs :: "string list"
    by (cases "100 \<le> length xs") (simp_all add: min_def)
  then have b: "batch_texts_at T s = take 100 (drop s T)"
    unfolding batch_texts_at_def m .
  have "take 100 (drop s T) @ drop 100 (drop s T) = drop s T" by (rule append_take_drop_id)
  then show ?thesis using a by (simp add: b add.commute)
qed

lemma batch_loop_calls:
  "\<exists>R. snd (snd (batch_loop e h T I s (E, nc, calls))) = calls @ R
       \<and> concat R = drop s T \<and> (\<forall>b \<in> set R. b \<noteq> [] \<and> length b \<le> 100)"
proof (induction "length T - s" arbitrary: s E nc calls rule: less_induct)
  case less
  show ?case
  proof (cases "s < length T")
    case True
    then have d: "length T - (s + 100) < length T - s" by simp
    let ?st = "foldl (store_embedding h) (E, nc)
               (zip (take (min (s + 100) (length T) - s) (drop s I))
                    (map (model_encode e) (batch_texts_at T s)))"
    from less [OF d, of "fst ?st" "snd ?st" "calls @ [batch_texts_at T s]"]
    obtain R where R: "snd (snd (batch_loop e h T I (s + 100)
                        (fst ?st, snd ?st, calls @ [batch_texts_at T s])))
                       = (calls @ [batch_texts_at T s]) @ R"
      and c: "concat R = drop (s + 100) T"
      and l: "\<forall>b \<in> set R. b \<noteq> [] \<and> length b \<le> 100" by blast
    have "snd (snd (batch_loop e h T I s (E, nc, calls))) = calls @ (batch_texts_at T s # R)"
      using R True by (simp add: batch_loop_step)
    moreover have "concat (batch_texts_at T s # R) = drop s T"
      using c batch_texts_at_props [OF True] by simp
    moreover have "\<forall>b \<in> set (batch_texts_at T s # R). b \<noteq> [] \<and> length b \<le> 100"
      using l batch_texts_at_props [OF True] by simp
    ultimately show ?thesis by blast
  next
    case False
    then show ?thesis by (simp add: batch_loop_stop)
  qed
qed

lemma store_pairs:
  "length Is = length Ts \<Longrightarrow> \<forall>j<length Ts. h ! (Is ! j) = H (Ts ! j) \<Longrightarrow>
   foldl (\<lambda>m (idx, v). m(h ! idx \<mapsto> v)) m (zip Is (map enc Ts))
     = foldl (\<lambda>m t. m(H t \<mapsto> enc t)) m Ts"
proof (induction Is Ts arbitrary: m rule: list_induct2)
  case Nil
  show ?case by simp
next
  case (Cons i Is t Ts)
  from Cons.prems have h0: "h ! i = H t" by auto
  from Cons.prems have "\<forall>j<length Ts. h ! (Is ! j) = H (Ts ! j)" by auto
  from Cons.IH [OF this] h0 show ?case by simp
qed

lemma foldl_upd_good:
  "\<forall>k v. m k = Some v \<longrightarrow> (\<exists>t\<in>S. H t = k \<and> v = enc t) \<Longrightarrow> set Ts \<subseteq> S \<Longrightarrow>
   \<forall>k v. foldl (\<lambda>m t. m(H t \<mapsto> enc t)) m Ts k = Some v \<longrightarrow> (\<exists>t\<in>S. H t = k \<and> v = enc t)"
  by (induction Ts rule: rev_induct) auto

lemma foldl_upd_keeps:
  "m k \<noteq> None \<Longrightarrow> foldl (\<lambda>m t. m(H t \<mapsto> enc t)) m Ts k \<noteq> None"
  by (induction Ts rule: rev_induct) auto

lemma foldl_upd_covers:
  "t \<in> set Ts \<Longrightarrow> foldl (\<lambda>m t. m(H t \<mapsto> enc t)) m Ts (H t) \<noteq> None"
  by (induction Ts rule: rev_induct) auto

lemma batch_loop_cache:
  assumes len: "length I = length T"
    and key: "\<forall>j<length T. h ! (I ! j) = H (T ! j)"
  shows "(\<forall>k v. map_of nc k = Some v \<longrightarrow> (\<exists>t\<in>set T. H t = k \<and> v = model_encode e t)) \<Longrightarrow>
         (\<forall>t\<in>set (take s T). map_of nc (H t) \<noteq> None) \<Longrightarrow>
         (\<forall>k v. map_of (fst (snd (batch_loop e h T I s (E, nc, calls)))) k = Some v
                 \<longrightarrow> (\<exists>t\<in>set T. H t = k \<and> v = model_encode e t))
         \<and> (\<forall>t\<in>set T. map_of (fst (snd (batch_loop e h T I s (E, nc, calls)))) (H t) \<noteq> None)"
proof (induction "length T - s" arbitrary: s E nc calls rule: less_induct)
  case less
  show ?case
  proof (cases "s < length T")
    case False
    then have "take s T = T" by simp
    with less.prems False show ?thesis by (simp add: batch_loop_stop)
  next
    case True
    then have d: "length T - (s + 100) < length T - s" by simp
    let ?n = "min (s + 100) (length T) - s"
    let ?Is = "take ?n (drop s I)"
    let ?Ts = "batch_texts_at T s"
    let ?st = "foldl (store_embedding h) (E, nc) (zip ?Is (map (model_encode e) ?Ts))"
    have Ts: "?Ts = take ?n (drop s T)" by (simp add: batch_texts_at_def)
    have l: "length ?Is = length ?Ts" using len by (simp add: Ts)
    have k: "\<forall>j<length ?Ts. h ! (?Is ! j) = H (?Ts ! j)"
      using key len by (simp add: Ts)
    have m: "map_of (snd ?st) = foldl (\<lambda>m t. m(H t \<mapsto> model_encode e t)) (map_of nc) ?Ts"
      unfolding foldl_store_map
      using store_pairs [of ?Is ?Ts h H "map_of nc" "model_encode e"] l k by blast
    have sub: "set ?Ts \<subseteq> set T"
      unfolding Ts by (meson set_take_subset set_drop_subset subset_trans)
    have g: "\<forall>k v. map_of (snd ?st) k = Some v \<longrightarrow> (\<exists>t\<in>set T. H t = k \<and> v = model_encode e t)"
      unfolding m
      using foldl_upd_good [of "map_of nc" "set T" H "model_encode e" ?Ts] less.prems(1) sub
      by blast
    have tk: "take (s + 100) T = take s T @ take 100 (drop s T)"
      by (simp add: take_add)
    have b: "?Ts = take 100 (drop s T)"
      by (rule batch_texts_at_take)
    have c: "\<forall>t\<in>set (take (s + 100) T). map_of (snd ?st) (H t) \<noteq> None"
    proof
      fix t assume "t \<in> set (take (s + 100) T)"
      then consider "t \<in> set (take s T)" | "t \<in> set ?Ts" unfolding tk b by auto
      then show "map_of (snd ?st) (H t) \<noteq> None"
      proof cases
        case 1
        with less.prems(2) have "map_of nc (H t) \<noteq> None" by blast
        then show ?thesis unfolding m
          using foldl_upd_keeps [of "map_of nc" "H t" H "model_encode e" ?Ts] by blast
      next
        case 2
        then show ?thesis unfolding m
          using foldl_upd_covers [of t ?Ts H "model_encode e" "map_of nc"] by blast
      qed
    qed
    from less.hyps [OF d g c, of "fst ?st" "calls @ [?Ts]"] True
    show ?thesis by (simp add: batch_loop_step)
  qed
qed

lemma batch_loop_batches:
  "snd (snd (batch_loop e h T I s (E, nc, calls))) = calls @ batches_from T s"
proof (induction "length T - s" arbitrary: s E nc calls rule: less_induct)
  case less
  show ?case
  proof (cases "s < length T")
    case True
    then have d: "length T - (s + 100) < length T - s" by simp
    show ?thesis
      using True less [OF d]
      by (subst batches_from.simps) (simp add: batch_loop_step batch_texts_at_take)
  next
    case False
    then show ?thesis
      by (subst batches_from.simps) (simp add: batch_loop_stop)
  qed
qed

lemma batches_from_props:
  "concat (batches_from T s) = drop s T \<and> (\<forall>b \<in> set (batches_from T s). b \<noteq> [] \<and> length b \<le> 100)"
  using batch_loop_calls [of e h T I s E nc "[]"] 
  by (simp add: batch_loop_batches)


lemma build_index_fields:
  "sessions_fingerprint (build_index e st) = get_sessions_fingerprint e"
  "builds (build_index e st) = builds st + 1"
  "\<exists>embs. embeddings (build_index e st) = Some embs"
  "messages (build_index e st) = loaded_messages e"
  by (cases "loaded_messages e = []"; simp add: build_index_empty build_index_nonempty Let_def)+




subsection \<open>The example environment\<close>

lemma upt3: "[0..<3] = [0, 1, 2]"
  by (simp add: upt_rec)

lemma env0_sessions: "list_all_sessions env0 = [sessA]"
  by (simp add: list_all_sessions_def env0_def sorted_reverse_def)

lemma env0_fingerprint: "get_sessions_fingerprint env0 = ''a:t''"
  by (simp add: get_sessions_fingerprint_def env0_sessions) (simp add: env0_def sessA_def)

lemma env0_selected: "selected_sessions env0 = [sessA]" "excluded_sessions env0 = []"
  by (simp_all add: selected_sessions_def excluded_sessions_def env0_sessions
      select_sessions_within_limit_def) (simp_all add: env0_def)

lemma env0_loaded: "loaded_messages env0 = [msg1, msg2, msg3]"
  by (simp add: loaded_messages_def env0_selected load_messages_for_sessions_def
      load_session_messages_def) (simp add: env0_def sessA_def)

lemma env0_hashes: "message_hashes env0 = [''alpha'', ''beta'', ''alpha'']"
  by (simp add: message_hashes_def env0_loaded compute_text_hash_def)
    (simp add: env0_def example_messages)

lemma env0_embedded:
  "embedded_of env0 (init_index None) =
     ([[1, 0], [0, 1], [1, 0]], [(''alpha'', [1, 0]), (''beta'', [0, 1])],
      [[''alpha'', ''beta'', ''alpha'']])"
proof -
  have m: "filter (\<lambda>(i, msg). load_cache (init_index None)
                      (compute_text_hash env0 (searchable_text msg)) = None)
             (List.enumerate 0 [msg1, msg2, msg3]) = [(0, msg1), (1, msg2), (2, msg3)]"
    by (simp add: load_cache_def init_index_def)
  have t: "map (\<lambda>(i, msg). searchable_text msg) [(0::nat, msg1), (1, msg2), (2, msg3)]
             = [''alpha'', ''beta'', ''alpha'']"
    by (simp add: example_messages)
  have l: "map (\<lambda>(row, text_hash). case load_cache (init_index None) text_hash of
                   Some v \<Rightarrow> v | None \<Rightarrow> row)
             (zip (replicate 3 z) [''alpha'', ''beta'', ''alpha'']) = [z, z, z]" for z
    by (simp add: load_cache_def init_index_def numeral_3_eq_3)
  show ?thesis
    unfolding embedded_of_def Let_def env0_loaded env0_hashes m t
    apply (simp add: l)
    apply (subst batch_loop.simps)
    apply (simp add: store_embedding_def)
    apply (subst batch_loop.simps)
    apply (simp add: env0_def)
    done
qed

lemma env0_build: "build_index env0 (init_index None) = built0"
proof -
  have n: "loaded_messages env0 \<noteq> []" by (simp add: env0_loaded)
  have ts: "map timestamp [msg1, msg2, msg3] = [5, 10, 15]"
    by (simp add: example_messages)
  have w: "cache_write_ok env0" by (simp add: env0_def)
  show ?thesis
    unfolding build_index_nonempty [OF n] Let_def env0_embedded env0_fingerprint env0_selected
      env0_loaded env0_hashes
    by (simp add: save_cache_def w build_metadata_indices_def argsort_def upt3 load_cache_def
        init_index_def built0_def example_messages)
qed

lemma env0_ensure: "ensure_index env0 (init_index None) = built0"
  by (simp add: ensure_index_def env0_build) (simp add: init_index_def)

section \<open>Search\<close>

lemma search_walk_eq:
  "search_walk msgs cands sims wfl sfl thr maxr ranked results =
     results @ take (max 1 (nat (maxr - int (length results))))
       (filter (\<lambda>p. passes_filters wfl sfl (fst p))
          (map (scored_candidate msgs cands sims)
             (takeWhile (\<lambda>i. \<not> sims ! i < thr) ranked)))"
proof (induction ranked arbitrary: results)
  case Nil
  show ?case by simp
next
  case (Cons i rest)
  show ?case
  proof (cases "sims ! i < thr")
    case True
    then show ?thesis by simp
  next
    case False
    show ?thesis
    proof (cases "passes_filters wfl sfl (msgs ! (cands ! i))")
      case p: False
      then show ?thesis
        using False Cons.IH [of results]
        by (auto simp: passes_filters_def scored_candidate_def Let_def split: option.splits)
    next
      case p: True
      let ?r = "results @ [(msgs ! (cands ! i), sims ! i)]"
      show ?thesis
      proof (cases "int (length ?r) \<ge> maxr")
        case True
        then have "max 1 (nat (maxr - int (length results))) = 1" by simp
        then show ?thesis
          using False p True
          by (auto simp: passes_filters_def scored_candidate_def Let_def split: option.splits)
      next
        case f: False
        then have m: "max 1 (nat (maxr - int (length results)))
                     = Suc (max 1 (nat (maxr - int (length ?r))))" by simp
        show ?thesis
          using False p f Cons.IH [of ?r] unfolding m
          by (auto simp: passes_filters_def scored_candidate_def Let_def split: option.splits)
      qed
    qed
  qed
qed

lemma argsort_sorted: "sorted (map (\<lambda>i. a ! i) (argsort a))"
  by (simp add: argsort_def)

lemma ranked_desc: "sorted_wrt (\<lambda>i j. a ! j \<le> a ! i) (sorted_local_indices_of a)"
proof -
  have "sorted_wrt (\<lambda>i j. a ! i \<le> a ! j) (argsort a)"
    using argsort_sorted [of a] by (simp add: sorted_map)
  then show ?thesis
    by (simp add: sorted_local_indices_of_def sorted_wrt_rev)
qed

lemma ranked_set: "set (sorted_local_indices_of a) = {0..<length a}"
  by (simp add: sorted_local_indices_of_def argsort_def)

lemma ranked_distinct: "distinct (sorted_local_indices_of a)"
  by (simp add: sorted_local_indices_of_def argsort_def)

lemma walk_sorted:
  assumes "sorted_wrt (\<lambda>i j. sims ! j \<le> sims ! i) ranked"
  shows "sorted_wrt (\<lambda>x y. snd y \<le> snd x)
     (take n (filter P (map (scored_candidate msgs cands sims) (takeWhile Q ranked))))"
proof -
  have "sorted_wrt (\<lambda>i j. sims ! j \<le> sims ! i) (takeWhile Q ranked)"
    using assms by simp
  then have "sorted_wrt (\<lambda>x y. snd y \<le> snd x) (map (scored_candidate msgs cands sims) (takeWhile Q ranked))"
    by (simp add: sorted_wrt_map scored_candidate_def)
  then have "sorted_wrt (\<lambda>x y. snd y \<le> snd x) (filter P (map (scored_candidate msgs cands sims) (takeWhile Q ranked)))"
    by (rule sorted_wrt_filter)
  then show ?thesis by (rule sorted_wrt_take)
qed

lemma walk_threshold:
  "x \<in> set (take n (filter P (map (scored_candidate msgs cands sims)
                               (takeWhile (\<lambda>i. \<not> sims ! i < thr) ranked)))) \<Longrightarrow> thr \<le> snd x"
proof -
  assume "x \<in> set (take n (filter P (map (scored_candidate msgs cands sims)
                               (takeWhile (\<lambda>i. \<not> sims ! i < thr) ranked))))"
  then have "x \<in> set (map (scored_candidate msgs cands sims)
                               (takeWhile (\<lambda>i. \<not> sims ! i < thr) ranked))"
    by (meson in_set_takeD filter_is_subset subsetD)
  then obtain i where "i \<in> set (takeWhile (\<lambda>i. \<not> sims ! i < thr) ranked)"
    and "x = scored_candidate msgs cands sims i" by auto
  then show ?thesis
    using set_takeWhileD [of i "\<lambda>i. \<not> sims ! i < thr" ranked]
    by (simp add: scored_candidate_def)
qed

lemma search_snd:
  "snd (search e st q wfl sfl thr maxr a b) =
    (let st' = ensure_index e st in
     case embeddings st' of None \<Rightarrow> []
     | Some embs \<Rightarrow>
        if embs = [] \<or> candidate_indices_of st' a b = [] then []
        else
          let cands = candidate_indices_of st' a b;
              sims = similarities_of embs cands (model_encode e q)
          in take (max 1 (nat maxr))
               (filter (\<lambda>p. passes_filters wfl sfl (fst p))
                  (map (scored_candidate (messages st') cands sims) (examined_of thr sims))))"
  by (simp add: search_def Let_def search_walk_eq examined_of_def split: option.splits)

lemma search_fst: "fst (search e st q wfl sfl thr maxr a b) = ensure_index e st"
  by (simp add: search_def Let_def)

lemma env0_search:
  "snd (search env0 (init_index None) ''alpha'' None None (2 / 10) 30 None None)
     = [(msg3, 1), (msg1, 1)]"
  by (simp add: search_snd env0_ensure)
     (simp add: built0_def candidate_indices_of_def upt3 similarities_of_def dot_def
      examined_of_def sorted_local_indices_of_def argsort_def env0_def scored_candidate_def
      passes_filters_def)

text \<open>
  C1. Whatever the index and the query, \<^verbatim>\<open>search\<close> first ensures the index and returns
  its results in non-increasing score order, each score at least the threshold. The walk
  follows the candidates ranked by similarity descending and examines those before the
  first score below the threshold: nothing from that point on is examined or returned.
  Among the examined candidates, those failing the workspace or source filter are skipped
  and the walk goes on; the result is the first \<open>max_results\<close> of the others (the first
  one when \<open>max_results\<close> is below 1).
\<close>

theorem search_ordering:
  "(let st' = fst (search e st q wfl sfl thr maxr a b);
        res = snd (search e st q wfl sfl thr maxr a b)
    in st' = ensure_index e st
       \<and> sorted_wrt (\<lambda>x y. snd y \<le> snd x) res
       \<and> list_all (\<lambda>x. thr \<le> snd x) res
       \<and> (case embeddings st' of
            None \<Rightarrow> res = []
          | Some embs \<Rightarrow>
              if embs = [] \<or> candidate_indices_of st' a b = [] then res = []
              else
                let cands = candidate_indices_of st' a b;
                    sims = similarities_of embs cands (model_encode e q);
                    ranked = sorted_local_indices_of sims;
                    examined = takeWhile (\<lambda>i. \<not> sims ! i < thr) ranked
                in sorted_wrt (\<lambda>i j. sims ! j \<le> sims ! i) ranked
                   \<and> set ranked = {0..<length cands}
                   \<and> res = take (max 1 (nat maxr))
                            (filter (\<lambda>p. passes_filters wfl sfl (fst p))
                               (map (scored_candidate (messages st') cands sims) examined))))"
proof -
  let ?st = "ensure_index e st"
  show ?thesis
  proof (cases "embeddings ?st")
    case None
    then show ?thesis by (simp add: search_fst search_snd)
  next
    case (Some embs)
    show ?thesis
    proof (cases "embs = [] \<or> candidate_indices_of ?st a b = []")
      case True
      with Some show ?thesis by (auto simp: search_fst search_snd)
    next
      case False
      let ?cands = "candidate_indices_of ?st a b"
      let ?sims = "similarities_of embs ?cands (model_encode e q)"
      have l: "length ?sims = length ?cands" by (simp add: similarities_of_def)
      have r: "snd (search e st q wfl sfl thr maxr a b) =
         take (max 1 (nat maxr))
               (filter (\<lambda>p. passes_filters wfl sfl (fst p))
                  (map (scored_candidate (messages ?st) ?cands ?sims) (examined_of thr ?sims)))"
        using Some False by (simp add: search_snd Let_def)
      have s: "sorted_wrt (\<lambda>x y. snd y \<le> snd x) (snd (search e st q wfl sfl thr maxr a b))"
        unfolding r examined_of_def by (rule walk_sorted [OF ranked_desc])
      have t: "list_all (\<lambda>x. thr \<le> snd x) (snd (search e st q wfl sfl thr maxr a b))"
        unfolding r examined_of_def list_all_iff using walk_threshold by blast
      show ?thesis
        using Some False s t r l
        by (simp add: search_fst Let_def ranked_desc ranked_set examined_of_def)
    qed
  qed
qed

theorem search_ordering_witness:
  "snd (search env0 (init_index None) ''alpha'' None None (2 / 10) 30 None None)
     = [(msg3, 1), (msg1, 1)]
   \<and> sorted_wrt (\<lambda>x y. snd y \<le> snd x)
        (snd (search env0 (init_index None) ''alpha'' None None (2 / 10) 30 None None))
   \<and> list_all (\<lambda>x. 2 / 10 \<le> snd x)
        (snd (search env0 (init_index None) ''alpha'' None None (2 / 10) 30 None None))"
proof -
  have "sorted_wrt (\<lambda>x y. snd y \<le> snd x)
          (snd (search env0 (init_index None) ''alpha'' None None (2 / 10) 30 None None))
        \<and> list_all (\<lambda>x. 2 / 10 \<le> snd x)
            (snd (search env0 (init_index None) ''alpha'' None None (2 / 10) 30 None None))"
    using search_ordering [of env0 "init_index None" "''alpha''" None None "2 / 10" 30 None None]
    unfolding Let_def by blast
  then show ?thesis using env0_search by blast
qed

subsection \<open>Ties\<close>

lemma filter_order:
  assumes "sorted_wrt (<) (filter P ys)" "ys = as @ a # bs @ b # cs" "P a" "P b"
  shows "(a::nat) < b"
proof -
  have "filter P ys = filter P as @ a # (filter P bs @ b # filter P cs)"
    using assms(2-4) by simp
  with assms(1) have "sorted_wrt (<) (a # (filter P bs @ b # filter P cs))"
    by (simp add: sorted_wrt_append)
  then show ?thesis by (simp add: sorted_wrt_append)
qed

lemma argsort_ties_sorted: "sorted_wrt (<) (filter (\<lambda>i. a ! i = k) (argsort a))"
proof -
  have "filter (\<lambda>i. a ! i = k) (argsort a) = filter (\<lambda>i. a ! i = k) [0..<length a]"
    by (simp add: argsort_def sort_key_stable)
  moreover have "sorted_wrt (<) (filter (\<lambda>i. a ! i = k) [0..<length a])"
    by (rule sorted_wrt_filter) (simp add: sorted_wrt_upt)
  ultimately show ?thesis by simp
qed

lemma ranked_later_first:
  assumes "sorted_local_indices_of sims = xs @ i # ys @ j # zs" "sims ! i = sims ! j"
  shows "j < i"
proof -
  have "rev (sorted_local_indices_of sims) = argsort sims"
    by (simp add: sorted_local_indices_of_def)
  then have "argsort sims = rev zs @ j # rev ys @ i # rev xs"
    using assms(1) by simp
  from filter_order [OF argsort_ties_sorted [of sims "sims ! j"] this] assms(2)
  show ?thesis by simp
qed

lemma r3: "sorted_local_indices_of [1, 0, 1] = [2, 0, 1]"
  by (simp add: sorted_local_indices_of_def argsort_def upt3)

text \<open>
  C7, as the code has it. The walk order is the reverse of the ascending order of the
  similarities: it is a permutation of the candidates in non-increasing similarity, and of
  two candidates with equal similarity the one that is later in the candidate order comes
  first in the walk (with the ascending order stable, as NumPy's sort of a short array is).
\<close>

theorem sorted_local_indices_ties:
  "sorted_wrt (\<lambda>i j. sims ! j \<le> sims ! i) (sorted_local_indices_of sims)
   \<and> set (sorted_local_indices_of sims) = {0..<length sims}
   \<and> distinct (sorted_local_indices_of sims)
   \<and> (sorted_local_indices_of sims = xs @ i # ys @ j # zs \<and> sims ! i = sims ! j \<longrightarrow> j < i)"
  using ranked_later_first [of sims xs i ys j zs]
  by (simp add: ranked_desc ranked_set ranked_distinct)

theorem sorted_local_indices_ties_witness:
  "sorted_local_indices_of [1, 0, 1] = [] @ 2 # [] @ 0 # [1]
   \<and> [1, 0, 1 :: real] ! 2 = [1, 0, 1] ! 0 \<and> (0::nat) < 2"
  using sorted_local_indices_ties [of "[1, 0, 1]" "[]" 2 "[]" 0 "[1]"]
  by (simp add: r3)

text \<open>Ties are not in candidate order. In the example index the first and the third message
  have the same text, hence the same similarity to any query; the search returns the third
  message before the first.\<close>

theorem search_ties_reversed:
  "candidate_indices_of built0 None None = [0, 1, 2]
   \<and> similarities_of [[1, 0], [0, 1], [1, 0]] [0, 1, 2] (model_encode env0 ''alpha'') = [1, 0, 1]
   \<and> sorted_local_indices_of [1, 0, 1] = [2, 0, 1]
   \<and> messages (ensure_index env0 (init_index None)) = [msg1, msg2, msg3]
   \<and> snd (search env0 (init_index None) ''alpha'' None None (2 / 10) 30 None None)
       = [(msg3, 1), (msg1, 1)]"
proof (intro conjI)
  show "candidate_indices_of built0 None None = [0, 1, 2]"
    by (simp add: built0_def candidate_indices_of_def upt3)
  show "similarities_of [[1, 0], [0, 1], [1, 0]] [0, 1, 2] (model_encode env0 ''alpha'')
          = [1, 0, 1]"
    by (simp add: similarities_of_def dot_def env0_def)
  show "sorted_local_indices_of [1, 0, 1] = [2, 0, 1]"
    by (rule r3)
  show "messages (ensure_index env0 (init_index None)) = [msg1, msg2, msg3]"
    by (simp add: env0_ensure built0_def)
  show "snd (search env0 (init_index None) ''alpha'' None None (2 / 10) 30 None None)
          = [(msg3, 1), (msg1, 1)]"
    by (rule env0_search)
qed

section \<open>Rebuilding\<close>



section \<open>Date filtering\<close>


lemma searchsorted_left_le: "searchsorted_left xs v \<le> length xs"
  by (simp add: searchsorted_left_def length_takeWhile_le)












section \<open>Embedding cache\<close>

lemma missing_enum_texts:
  "map (\<lambda>(i, msg). searchable_text msg) (missing_enum e st) = missing_texts e st"
proof -
  have "map (\<lambda>(i, msg). searchable_text msg) (missing_enum e st)
          = map searchable_text (map snd (missing_enum e st))"
    by (simp add: case_prod_unfold)
  then show ?thesis
    by (simp add: missing_enum_def missing_texts_def map_snd_filter_enumerate)
qed

lemma embedded_of_batch_loop:
  "embedded_of e st =
     batch_loop e (message_hashes e) (missing_texts e st) (map fst (missing_enum e st)) 0
       (map (\<lambda>(row, text_hash). (case load_cache st text_hash of Some v \<Rightarrow> v | None \<Rightarrow> row))
          (zip (replicate (length (loaded_messages e)) (replicate EMBEDDING_DIM 0))
             (message_hashes e)), [], [])"
  unfolding embedded_of_def Let_def missing_enum_def [symmetric] missing_enum_texts ..

lemma missing_enum_key:
  assumes "j < length (missing_enum e st)"
  shows "message_hashes e ! (fst (missing_enum e st ! j))
           = compute_text_hash e (searchable_text (snd (missing_enum e st ! j)))"
proof -
  have "missing_enum e st ! j \<in> set (missing_enum e st)" using assms by simp
  then have "missing_enum e st ! j \<in> set (List.enumerate 0 (loaded_messages e))"
    by (simp add: missing_enum_def)
  then have "fst (missing_enum e st ! j) < length (loaded_messages e)
             \<and> snd (missing_enum e st ! j) = loaded_messages e ! fst (missing_enum e st ! j)"
    by (simp add: in_set_enumerate_eq)
  then show ?thesis by (simp add: message_hashes_def)
qed

lemma embedded_calls: "snd (snd (embedded_of e st)) = batches_from (missing_texts e st) 0"
  by (simp add: embedded_of_batch_loop batch_loop_batches)

lemma embedded_cache:
  "(\<forall>k v. map_of (fst (snd (embedded_of e st))) k = Some v
      \<longrightarrow> (\<exists>t\<in>set (missing_texts e st). compute_text_hash e t = k \<and> v = model_encode e t))
   \<and> (\<forall>t\<in>set (missing_texts e st).
         map_of (fst (snd (embedded_of e st))) (compute_text_hash e t) \<noteq> None)"
proof -
  have len: "length (map fst (missing_enum e st)) = length (missing_texts e st)"
    by (simp add: missing_enum_texts [symmetric])
  have key: "\<forall>j<length (missing_texts e st).
               message_hashes e ! (map fst (missing_enum e st) ! j)
                 = compute_text_hash e (missing_texts e st ! j)"
  proof (intro allI impI)
    fix j assume "j < length (missing_texts e st)"
    then have j: "j < length (missing_enum e st)" by (simp add: missing_enum_texts [symmetric])
    then have "missing_texts e st ! j = searchable_text (snd (missing_enum e st ! j))"
      by (simp add: missing_enum_texts [symmetric] case_prod_unfold)
    with missing_enum_key [OF j] j
    show "message_hashes e ! (map fst (missing_enum e st) ! j)
            = compute_text_hash e (missing_texts e st ! j)" by simp
  qed
  show ?thesis
    unfolding embedded_of_batch_loop
    by (rule batch_loop_cache [OF len key]) simp_all
qed

lemma missing_texts_uncached:
  "t \<in> set (missing_texts e st) \<Longrightarrow> load_cache st (compute_text_hash e t) = None"
  by (auto simp: missing_texts_def)

lemma missing_texts_empty: "loaded_messages e = [] \<Longrightarrow> missing_texts e st = []"
  by (simp add: missing_texts_def)

lemma batches_from_Nil: "batches_from [] s = []"
  by (subst batches_from.simps) simp

lemma build_index_calls:
  "batch_encode_calls (build_index e st)
     = batch_encode_calls st @ batches_from (missing_texts e st) 0"
proof (cases "loaded_messages e = []")
  case True
  then show ?thesis
    by (simp add: build_index_empty missing_texts_empty batches_from_Nil)
next
  case False
  then show ?thesis
    by (simp add: build_index_nonempty Let_def embedded_calls)
qed

lemma load_cache_update [simp]:
  "load_cache (st\<lparr> cache_file := f \<rparr>) = (case f of None \<Rightarrow> Map.empty | Some c \<Rightarrow> c)"
  by (simp add: load_cache_def)

lemma build_index_cache_file:
  "cache_file (build_index e st) =
     (if fst (snd (embedded_of e st)) \<noteq> [] \<and> loaded_messages e \<noteq> [] \<and> cache_write_ok e
      then Some (load_cache st ++ map_of (fst (snd (embedded_of e st))))
      else cache_file st)"
proof (cases "loaded_messages e = []")
  case True
  then show ?thesis by (simp add: build_index_empty)
next
  case False
  then show ?thesis
    by (simp add: build_index_nonempty Let_def save_cache_def load_cache_def)
qed

lemma build_index_cache:
  assumes "cache_write_ok e"
  shows "(\<forall>t\<in>set (missing_texts e st). \<exists>t'\<in>set (missing_texts e st).
            compute_text_hash e t' = compute_text_hash e t
            \<and> load_cache (build_index e st) (compute_text_hash e t) = Some (model_encode e t'))
         \<and> (\<forall>k v. load_cache st k = Some v \<longrightarrow> load_cache (build_index e st) k = Some v)"
proof (cases "fst (snd (embedded_of e st)) \<noteq> [] \<and> loaded_messages e \<noteq> []")
  case False
  have "missing_texts e st = []"
  proof (cases "loaded_messages e = []")
    case True
    then show ?thesis by (rule missing_texts_empty)
  next
    case ne: False
    with False have "fst (snd (embedded_of e st)) = []" by simp
    with embedded_cache [of e st] show ?thesis by (cases "missing_texts e st") auto
  qed
  moreover have "load_cache (build_index e st) = load_cache st"
    using False by (auto simp: load_cache_def build_index_cache_file)
  ultimately show ?thesis by simp
next
  case True
  let ?nc = "map_of (fst (snd (embedded_of e st)))"
  have c: "load_cache (build_index e st) = load_cache st ++ ?nc"
    using True assms by (simp add: load_cache_def [of "build_index e st"] build_index_cache_file)
  have good: "\<And>k v. ?nc k = Some v \<Longrightarrow>
                \<exists>t\<in>set (missing_texts e st). compute_text_hash e t = k \<and> v = model_encode e t"
    using embedded_cache [of e st] by blast
  have covers: "\<And>t. t \<in> set (missing_texts e st) \<Longrightarrow> ?nc (compute_text_hash e t) \<noteq> None"
    using embedded_cache [of e st] by blast
  have a: "\<exists>t'\<in>set (missing_texts e st).
            compute_text_hash e t' = compute_text_hash e t
            \<and> load_cache (build_index e st) (compute_text_hash e t) = Some (model_encode e t')"
    if t: "t \<in> set (missing_texts e st)" for t
  proof -
    from covers [OF t] obtain v where v: "?nc (compute_text_hash e t) = Some v" by blast
    from good [OF v] obtain t' where "t' \<in> set (missing_texts e st)"
      "compute_text_hash e t' = compute_text_hash e t" "v = model_encode e t'" by blast
    with v show ?thesis unfolding c by (auto simp: map_add_def)
  qed
  have b: "load_cache (build_index e st) k = Some v" if k: "load_cache st k = Some v" for k v
  proof -
    have "?nc k = None"
    proof (rule ccontr)
      assume "?nc k \<noteq> None"
      then obtain w where "?nc k = Some w" by blast
      from good [OF this] obtain t where "t \<in> set (missing_texts e st)"
        "compute_text_hash e t = k" by blast
      with missing_texts_uncached [of t e st] k show False by simp
    qed
    with k show ?thesis unfolding c by (simp add: map_add_def)
  qed
  from a b show ?thesis by blast
qed

lemma build_index_cache_failed:
  "\<not> cache_write_ok e \<Longrightarrow> cache_file (build_index e st) = cache_file st"
  by (simp add: build_index_cache_file)

lemma env101_loaded:
  "loaded_messages env101 = map (\<lambda>i. example_message ''u'' 5 ''alpha'' (int i)) [0..<101]"
proof -
  have s: "list_all_sessions env101 = [sessA]"
    by (simp add: list_all_sessions_def env101_def env0_def sorted_reverse_def)
  have "selected_sessions env101 = [sessA]"
    by (simp add: selected_sessions_def s select_sessions_within_limit_def)
      (simp add: env101_def env0_def)
  then show ?thesis
    by (simp add: loaded_messages_def load_messages_for_sessions_def load_session_messages_def)
      (simp add: env101_def env0_def sessA_def)
qed

lemma env101_missing: "missing_texts env101 (init_index None) = replicate 101 ''alpha''"
proof -
  have "load_cache (init_index None) = Map.empty"
    by (simp add: load_cache_def init_index_def)
  then have "missing_texts env101 (init_index None)
               = map (\<lambda>i. ''alpha'') [0..<101]"
    by (simp add: missing_texts_def env101_loaded example_message_def comp_def)
  then show ?thesis by (simp add: map_replicate_const)
qed

lemma batches_101: "batches_from (replicate 101 x) 0 = [replicate 100 x, [x]]"
proof -
  have a: "batches_from (replicate 101 x) 200 = []"
    by (subst batches_from.simps) simp
  have b: "batches_from (replicate 101 x) 100 = [[x]]"
    by (subst batches_from.simps) (simp add: a)
  show ?thesis
    by (subst batches_from.simps) (simp add: b)
qed

text \<open>
  C6, as the code has it. Within one build the model is called on the texts of exactly the
  messages whose content hash is absent from the cache loaded at the start of the build,
  in batches of at most 100, once for each such message: a message whose hash is cached
  triggers no call, and two uncached messages with the same text are both sent. The cache is
  keyed by the content hash, so identical texts share one entry. When the cache file is
  written successfully, the persisted cache then holds a vector for every text that was
  embedded, computed from a text with the same hash, and keeps every earlier entry; when
  the write fails the file stays as it was.
\<close>

theorem build_index_embedding_calls:
  "(let st' = build_index e st;
        texts = missing_texts e st
    in messages st' = loaded_messages e
       \<and> batch_encode_calls st' = batch_encode_calls st @ batches_from texts 0
       \<and> concat (batches_from texts 0) = texts
       \<and> (\<forall>b\<in>set (batches_from texts 0). b \<noteq> [] \<and> length b \<le> 100)
       \<and> (\<forall>msg\<in>set (loaded_messages e).
             (searchable_text msg \<in> set texts)
               = (load_cache st (compute_text_hash e (searchable_text msg)) = None))
       \<and> (cache_write_ok e \<longrightarrow>
             (\<forall>t\<in>set texts. \<exists>t'\<in>set texts.
                 compute_text_hash e t' = compute_text_hash e t
                 \<and> load_cache st' (compute_text_hash e t) = Some (model_encode e t'))
             \<and> (\<forall>k v. load_cache st k = Some v \<longrightarrow> load_cache st' k = Some v))
       \<and> (\<not> cache_write_ok e \<longrightarrow> cache_file st' = cache_file st))"
proof -
  have m: "(searchable_text msg \<in> set (missing_texts e st))
             = (load_cache st (compute_text_hash e (searchable_text msg)) = None)"
    if "msg \<in> set (loaded_messages e)" for msg
    using that missing_texts_uncached [of "searchable_text msg" e st]
    by (auto simp: missing_texts_def)
  show ?thesis
    unfolding Let_def
    using batches_from_props [of "missing_texts e st" 0] build_index_cache [of e st]
      build_index_cache_failed [of e st] m
    by (simp add: build_index_calls build_index_fields)
qed

theorem build_index_embedding_calls_witness:
  "cache_write_ok env0
   \<and> ''beta'' \<in> set (missing_texts env0 (init_index None))
   \<and> batch_encode_calls (build_index env0 (init_index None))
       = batches_from (missing_texts env0 (init_index None)) 0
   \<and> batch_encode_calls (build_index env0 (init_index None)) = [[''alpha'', ''beta'', ''alpha'']]
   \<and> load_cache (build_index env0 (init_index None)) (compute_text_hash env0 ''beta'')
       = Some (model_encode env0 ''beta'')"
proof -
  note t = build_index_embedding_calls [of env0 "init_index None", unfolded Let_def]
  have w: "cache_write_ok env0" by (simp add: env0_def)
  have b: "''beta'' \<in> set (missing_texts env0 (init_index None))"
    by (simp add: missing_texts_def env0_loaded load_cache_def init_index_def example_messages)
  have h: "compute_text_hash env0 x = x" for x
    by (simp add: compute_text_hash_def env0_def)
  from t have "batch_encode_calls (build_index env0 (init_index None))
       = batch_encode_calls (init_index None) @ batches_from (missing_texts env0 (init_index None)) 0"
    by blast
  then have c: "batch_encode_calls (build_index env0 (init_index None))
       = batches_from (missing_texts env0 (init_index None)) 0"
    by (simp add: init_index_def)
  from t w have "\<forall>t\<in>set (missing_texts env0 (init_index None)).
           \<exists>t'\<in>set (missing_texts env0 (init_index None)).
              compute_text_hash env0 t' = compute_text_hash env0 t
              \<and> load_cache (build_index env0 (init_index None)) (compute_text_hash env0 t)
                  = Some (model_encode env0 t')"
    by blast
  with b have l: "load_cache (build_index env0 (init_index None)) (compute_text_hash env0 ''beta'')
       = Some (model_encode env0 ''beta'')"
    unfolding h by blast
  have v: "batch_encode_calls (build_index env0 (init_index None)) = [[''alpha'', ''beta'', ''alpha'']]"
    by (simp add: env0_build built0_def)
  show ?thesis using w b c l v by blast
qed

text \<open>With 101 uncached messages of the same text the model is called twice, and the text
  is in both batches; with the cache file not writable the persisted cache has no vector
  for it after the build.\<close>

theorem build_index_embeds_duplicates:
  "map searchable_text (messages (build_index env101 (init_index None)))
     = replicate 101 ''alpha''
   \<and> batch_encode_calls (build_index env101 (init_index None))
       = [replicate 100 ''alpha'', [''alpha'']]
   \<and> length (filter (\<lambda>b. ''alpha'' \<in> set b)
               (batch_encode_calls (build_index env101 (init_index None)))) = 2
   \<and> \<not> cache_write_ok env101
   \<and> load_cache (build_index env101 (init_index None)) (compute_text_hash env101 ''alpha'')
       = None"
proof -
  have m: "map searchable_text (messages (build_index env101 (init_index None)))
             = replicate 101 ''alpha''"
    by (simp add: build_index_fields env101_loaded example_message_def comp_def
        map_replicate_const)
  have c: "batch_encode_calls (build_index env101 (init_index None))
             = [replicate 100 ''alpha'', [''alpha'']]"
    by (simp add: build_index_calls env101_missing batches_101) (simp add: init_index_def)
  have w: "\<not> cache_write_ok env101" by (simp add: env101_def)
  have f: "load_cache (build_index env101 (init_index None)) = Map.empty"
    by (simp add: load_cache_def build_index_cache_failed [OF w]) (simp add: init_index_def)
  show ?thesis
    using m w by (simp add: c f)
qed

section \<open>Query engine\<close>

subsection \<open>Date filters\<close>








subsection \<open>Defaults\<close>

lemma or_default_zero: "or_default (Some 0) d = or_default None d"
  by (simp add: or_default_def)

lemma search_conversations_cong:
  assumes "or_default cs (default_context_window (config_search e))
             = or_default cs' (default_context_window (config_search e))"
    and "or_default thr (default_threshold (config_search e))
             = or_default thr' (default_threshold (config_search e))"
    and "or_default mr (default_max_results (config_search e))
             = or_default mr' (default_max_results (config_search e))"
  shows "search_conversations e st q wfl sfl a b cs thr mr off
           = search_conversations e st q wfl sfl a b cs' thr' mr' off"
  unfolding search_conversations_def Let_def assms ..

lemma search_conversations_response:
  "snd (search_conversations e st q wfl sfl a b cs thr mr off) = Inr r \<Longrightarrow>
   sr_has_more r = (sr_offset r + int (length (sr_results r)) < sr_total_matches r)
   \<and> sr_hint r = Some (generate_hint (sr_total_matches r) (sr_offset r)
                         (int (length (sr_results r)))
                         (or_default mr (default_max_results (config_search e)))
                         (sr_has_more r))"
  by (auto simp: search_conversations_def Let_def generate_hint_def split: sum.splits if_splits)

lemma env0_search_pair:
  "search env0 (init_index None) ''alpha'' None None (2 / 10) 30 None None
     = (built0, [(msg3, 1), (msg1, 1)])"
  using env0_search search_fst [of env0 "init_index None" "''alpha''" None None "2 / 10" 30 None None]
  by (simp add: prod_eq_iff env0_ensure)

lemma env0_dedup: "deduplicate_results [(msg3, 1), (msg1, 1)] 3 = [(msg1, 1), (msg3, 1)]"
  by (simp add: deduplicate_results_def by_session_of_def dedup_session_def dedup_step_def
      sorted_reverse_def example_messages)

lemma env0_defaults:
  "or_default None (default_context_window (config_search env0)) = 3"
  "or_default None (default_threshold (config_search env0)) = 2 / 10"
  "(0 + or_default None (default_max_results (config_search env0))) * 3 = 30"
  "or_default None (default_max_results (config_search env0)) = 10"
  by (simp_all add: or_default_def env0_def SearchConfig_def)

lemma search_conversations_eval:
  assumes "parse_date_filter e a = Inr adt" "parse_date_filter e b = Inr bdt"
    and "or_default cs (default_context_window (config_search e)) = c"
    and "or_default thr (default_threshold (config_search e)) = t"
    and "or_default mr (default_max_results (config_search e)) = m"
    and "search e st q wfl sfl t ((off + m) * 3) adt bdt = (st', raw)" "raw \<noteq> []"
    and "py_slice (deduplicate_results raw c) off (off + m) = page"
  shows "search_conversations e st q wfl sfl a b cs thr mr off =
     (st', Inr \<lparr> sr_results = map (make_result e st' c) page, sr_query = q,
                 sr_total_matches = int (length (deduplicate_results raw c)), sr_offset = off,
                 sr_has_more = (off + int (length page) < int (length (deduplicate_results raw c))),
                 sr_excluded_sessions = excluded_session_count st',
                 sr_hint = Some (generate_hint (int (length (deduplicate_results raw c))) off
                                   (int (length page)) m
                                   (off + int (length page)
                                      < int (length (deduplicate_results raw c)))) \<rparr>)"
  using assms by (simp add: search_conversations_def Let_def)

lemma env0_conversations:
  "\<exists>r. snd (search_conversations env0 (init_index None) ''alpha'' None None None None
             None None None 0) = Inr r
       \<and> sr_total_matches r = 2 \<and> sr_offset r = 0 \<and> \<not> sr_has_more r
       \<and> length (sr_results r) = 2
       \<and> sr_hint r = Some ''Showing all 2 matches.''"
proof -
  have p: "parse_date_filter env0 None = Inr None" by (simp add: parse_date_filter_def)
  have s: "search env0 (init_index None) ''alpha'' None None (2 / 10) ((0 + 10) * 3) None None
             = (built0, [(msg3, 1), (msg1, 1)])"
    using env0_search_pair by simp
  have g: "py_slice (deduplicate_results [(msg3, 1), (msg1, 1)] 3) 0 (0 + 10)
             = [(msg1, 1), (msg3, 1)]"
    by (simp add: env0_dedup py_slice_def slice_index_def)
  have ne: "[(msg3, 1::real), (msg1, 1)] \<noteq> []" by simp
  show ?thesis
    unfolding search_conversations_eval [OF p p env0_defaults(1) env0_defaults(2) env0_defaults(4)
        s ne g]
    by (simp add: env0_dedup generate_hint_def str_int_eval)
qed

text \<open>
  C10. An argument of 0 for \<open>context_size\<close>, \<open>threshold\<close> or \<open>max_results\<close> is treated as
  unset: the call is the same as with \<^verbatim>\<open>None\<close>, hence as with the configured default, which is
  3, 0.2 and 10 in the default configuration. A threshold of 0 therefore still applies the
  cutoff 0.2, and \<open>max_results = 0\<close> gives the page of 10.
\<close>

theorem search_conversations_zero_is_unset:
  "search_conversations e st q wfl sfl a b (Some 0) thr mr off
     = search_conversations e st q wfl sfl a b None thr mr off
   \<and> search_conversations e st q wfl sfl a b cs (Some 0) mr off
       = search_conversations e st q wfl sfl a b cs None mr off
   \<and> search_conversations e st q wfl sfl a b cs thr (Some 0) off
       = search_conversations e st q wfl sfl a b cs thr None off
   \<and> or_default (Some 0) (default_context_window SearchConfig) = 3
   \<and> or_default (Some 0) (default_threshold SearchConfig) = 2 / 10
   \<and> or_default (Some 0) (default_max_results SearchConfig) = 10
   \<and> (config_search e = SearchConfig \<longrightarrow>
         search_conversations e st q wfl sfl a b (Some 0) thr mr off
           = search_conversations e st q wfl sfl a b (Some 3) thr mr off
         \<and> search_conversations e st q wfl sfl a b cs (Some 0) mr off
             = search_conversations e st q wfl sfl a b cs (Some (2 / 10)) mr off
         \<and> search_conversations e st q wfl sfl a b cs thr (Some 0) off
             = search_conversations e st q wfl sfl a b cs thr (Some 10) off)"
proof -
  have d: "or_default (Some 0) (default_context_window SearchConfig) = 3"
    "or_default (Some 0) (default_threshold SearchConfig) = 2 / 10"
    "or_default (Some 0) (default_max_results SearchConfig) = 10"
    by (simp_all add: or_default_def SearchConfig_def)
  have z: "or_default (Some 0) x = or_default None x" for x :: "'a::zero"
    by (rule or_default_zero)
  have c: "search_conversations e st q wfl sfl a b (Some 0) thr mr off
             = search_conversations e st q wfl sfl a b (Some 3) thr mr off
         \<and> search_conversations e st q wfl sfl a b cs (Some 0) mr off
             = search_conversations e st q wfl sfl a b cs (Some (2 / 10)) mr off
         \<and> search_conversations e st q wfl sfl a b cs thr (Some 0) off
             = search_conversations e st q wfl sfl a b cs thr (Some 10) off"
    if "config_search e = SearchConfig"
    by (intro conjI; rule search_conversations_cong)
      (simp_all add: that or_default_def SearchConfig_def)
  have n: "search_conversations e st q wfl sfl a b (Some 0) thr mr off
             = search_conversations e st q wfl sfl a b None thr mr off
         \<and> search_conversations e st q wfl sfl a b cs (Some 0) mr off
             = search_conversations e st q wfl sfl a b cs None mr off
         \<and> search_conversations e st q wfl sfl a b cs thr (Some 0) off
             = search_conversations e st q wfl sfl a b cs thr None off"
    by (intro conjI; rule search_conversations_cong) (simp_all add: z)
  show ?thesis
    using c d n by blast
qed

theorem search_conversations_zero_is_unset_witness:
  "config_search env0 = SearchConfig
   \<and> search_conversations env0 (init_index None) ''alpha'' None None None None
        (Some 0) (Some 0) (Some 0) 0
       = search_conversations env0 (init_index None) ''alpha'' None None None None
           (Some 3) (Some (2 / 10)) (Some 10) 0
   \<and> (\<exists>r. snd (search_conversations env0 (init_index None) ''alpha'' None None None None
             (Some 0) (Some 0) (Some 0) 0) = Inr r
          \<and> sr_total_matches r = 2 \<and> length (sr_results r) = 2)"
proof -
  have c: "config_search env0 = SearchConfig" by (simp add: env0_def)
  note t = search_conversations_zero_is_unset [where e = env0 and st = "init_index None"
      and q = "''alpha''" and wfl = None and sfl = None and a = None and b = None and off = 0]
  have 1: "search_conversations env0 (init_index None) ''alpha'' None None None None
             (Some 0) (Some 0) (Some 0) 0
           = search_conversations env0 (init_index None) ''alpha'' None None None None
               (Some 3) (Some 0) (Some 0) 0"
    using t [where thr = "Some 0" and mr = "Some 0"] c by blast
  have 2: "search_conversations env0 (init_index None) ''alpha'' None None None None
             (Some 3) (Some 0) (Some 0) 0
           = search_conversations env0 (init_index None) ''alpha'' None None None None
               (Some 3) (Some (2 / 10)) (Some 0) 0"
    using t [where cs = "Some 3" and mr = "Some 0"] c by blast
  have 3: "search_conversations env0 (init_index None) ''alpha'' None None None None
             (Some 3) (Some (2 / 10)) (Some 0) 0
           = search_conversations env0 (init_index None) ''alpha'' None None None None
               (Some 3) (Some (2 / 10)) (Some 10) 0"
    using t [where cs = "Some 3" and thr = "Some (2 / 10)"] c by blast
  have n1: "search_conversations env0 (init_index None) ''alpha'' None None None None
             (Some 0) (Some 0) (Some 0) 0
           = search_conversations env0 (init_index None) ''alpha'' None None None None
               None (Some 0) (Some 0) 0"
    using t [where thr = "Some 0" and mr = "Some 0"] by blast
  have n2: "search_conversations env0 (init_index None) ''alpha'' None None None None
             None (Some 0) (Some 0) 0
           = search_conversations env0 (init_index None) ''alpha'' None None None None
               None None (Some 0) 0"
    using t [where cs = None and mr = "Some 0"] by blast
  have n3: "search_conversations env0 (init_index None) ''alpha'' None None None None
             None None (Some 0) 0
           = search_conversations env0 (init_index None) ''alpha'' None None None None
               None None None 0"
    using t [where cs = None and thr = None] by blast
  from env0_conversations obtain r where
    "snd (search_conversations env0 (init_index None) ''alpha'' None None None None
             None None None 0) = Inr r" "sr_total_matches r = 2" "length (sr_results r) = 2"
    by blast
  then have e: "\<exists>r. snd (search_conversations env0 (init_index None) ''alpha'' None None None None
             (Some 0) (Some 0) (Some 0) 0) = Inr r
          \<and> sr_total_matches r = 2 \<and> length (sr_results r) = 2"
    unfolding n1 n2 n3 by blast
  show ?thesis
    using c e unfolding 1 2 3 by blast
qed

subsection \<open>Hint\<close>

text \<open>
  C5, as the code has it. The hint has four formats: no match at all; more results
  remaining; a page that starts at 1 with nothing remaining, which reads
  ``Showing all \<open>total\<close> matches.''; and a later final page. \<open>start\<close> is \<open>offset + 1\<close>
  and \<open>end\<close> is \<open>offset + count\<close>. For total 25, offset 10 and 10 results of at most 10 the
  hint is ``Showing 11-20 of 25. Use offset: 20 for more.''. In every response the hint is
  generated from the response's total, offset, number of results and has-more flag, and the
  flag says whether the offset plus the number of results is below the total.
\<close>

theorem generate_hint_cases:
  "generate_hint 0 off c mr hm = ''No matches found. Try different search terms.''
   \<and> (t \<noteq> 0 \<and> hm \<longrightarrow>
        generate_hint t off c mr hm =
          ''Showing '' @ str_int (off + 1) @ ''-'' @ str_int (off + c) @ '' of '' @ str_int t
          @ ''. Use offset: '' @ str_int (off + mr) @ '' for more.'')
   \<and> (t \<noteq> 0 \<and> \<not> hm \<and> off + 1 = 1 \<longrightarrow>
        generate_hint t off c mr hm = ''Showing all '' @ str_int t @ '' matches.'')
   \<and> (t \<noteq> 0 \<and> \<not> hm \<and> off + 1 \<noteq> 1 \<longrightarrow>
        generate_hint t off c mr hm =
          ''Showing '' @ str_int (off + 1) @ ''-'' @ str_int (off + c) @ '' of '' @ str_int t
          @ '' (final page).'')
   \<and> generate_hint 25 10 10 10 (10 + 10 < (25::int))
       = ''Showing 11-20 of 25. Use offset: 20 for more.''
   \<and> (snd (search_conversations e st q wfl sfl a b cs thr maxr offset) = Inr r \<longrightarrow>
        sr_has_more r = (sr_offset r + int (length (sr_results r)) < sr_total_matches r)
        \<and> sr_hint r = Some (generate_hint (sr_total_matches r) (sr_offset r)
                              (int (length (sr_results r)))
                              (or_default maxr (default_max_results (config_search e)))
                              (sr_has_more r)))"
proof -
  have g: "generate_hint 25 10 10 10 (10 + 10 < (25::int))
             = ''Showing 11-20 of 25. Use offset: 20 for more.''"
    by (simp add: generate_hint_def Let_def str_int_eval)
  show ?thesis
    using search_conversations_response [of e st q wfl sfl a b cs thr maxr offset r] g
    by (simp add: generate_hint_def Let_def)
qed

theorem generate_hint_cases_witness:
  "generate_hint 25 10 10 10 True = ''Showing 11-20 of 25. Use offset: 20 for more.''
   \<and> generate_hint 7 0 7 10 False = ''Showing all 7 matches.''
   \<and> generate_hint 25 20 5 10 False = ''Showing 21-25 of 25 (final page).''
   \<and> (\<exists>r. snd (search_conversations env0 (init_index None) ''alpha'' None None None None
               None None None 0) = Inr r
          \<and> sr_has_more r = (sr_offset r + int (length (sr_results r)) < sr_total_matches r)
          \<and> sr_hint r = Some (generate_hint (sr_total_matches r) (sr_offset r)
                                (int (length (sr_results r))) 10 (sr_has_more r)))"
proof -
  have 1: "generate_hint 25 10 10 10 True = ''Showing 11-20 of 25. Use offset: 20 for more.''"
    using generate_hint_cases [where t = 25 and off = 10 and c = 10 and mr = 10 and hm = True]
    by (simp add: str_int_eval)
  have 2: "generate_hint 7 0 7 10 False = ''Showing all 7 matches.''"
    using generate_hint_cases [where t = 7 and off = 0 and c = 7 and mr = 10 and hm = False]
    by (simp add: str_int_eval)
  have 3: "generate_hint 25 20 5 10 False = ''Showing 21-25 of 25 (final page).''"
    using generate_hint_cases [where t = 25 and off = 20 and c = 5 and mr = 10 and hm = False]
    by (simp add: str_int_eval)
  from env0_conversations obtain r where
    r: "snd (search_conversations env0 (init_index None) ''alpha'' None None None None
               None None None 0) = Inr r" by blast
  have "sr_has_more r = (sr_offset r + int (length (sr_results r)) < sr_total_matches r)
        \<and> sr_hint r = Some (generate_hint (sr_total_matches r) (sr_offset r)
                              (int (length (sr_results r)))
                              (or_default None (default_max_results (config_search env0)))
                              (sr_has_more r))"
    using generate_hint_cases [where e = env0 and st = "init_index None" and q = "''alpha''"
        and wfl = None and sfl = None and a = None and b = None and cs = None and thr = None
        and maxr = None and offset = 0 and r = r] r
    by blast
  then have 4: "sr_has_more r = (sr_offset r + int (length (sr_results r)) < sr_total_matches r)
        \<and> sr_hint r = Some (generate_hint (sr_total_matches r) (sr_offset r)
                              (int (length (sr_results r))) 10 (sr_has_more r))"
    unfolding env0_defaults .
  show ?thesis using 1 2 3 4 r by blast
qed

text \<open>A first page with nothing remaining does not read ``Showing 1-5 of 5.''.\<close>

theorem generate_hint_first_page:
  "generate_hint 5 0 5 10 False = ''Showing all 5 matches.''
   \<and> generate_hint 5 0 5 10 False \<noteq> ''Showing 1-5 of 5.''
   \<and> (\<exists>r. snd (search_conversations env0 (init_index None) ''alpha'' None None None None
               None None None 0) = Inr r
          \<and> sr_total_matches r = 2 \<and> sr_offset r = 0 \<and> \<not> sr_has_more r
          \<and> length (sr_results r) = 2
          \<and> sr_hint r = Some ''Showing all 2 matches.''
          \<and> sr_hint r \<noteq> Some ''Showing 1-2 of 2.'')"
proof -
  have "generate_hint 5 0 5 10 False = ''Showing all 5 matches.''"
    by (simp add: generate_hint_def str_int_eval)
  moreover from env0_conversations obtain r where
    "snd (search_conversations env0 (init_index None) ''alpha'' None None None None
               None None None 0) = Inr r"
    "sr_total_matches r = 2" "sr_offset r = 0" "\<not> sr_has_more r" "length (sr_results r) = 2"
    "sr_hint r = Some ''Showing all 2 matches.''" by blast
  ultimately show ?thesis by auto
qed

end
